theory Spec2Isabelle
  imports Main
begin

section \<open>The movie service: rows, JSON documents and cache keys\<close>

text \<open>
  The development follows \<^verbatim>\<open>src/movie-service/main.py\<close>. The relational store and the
  Redis cache are external; they appear here as fields of one record, and every call the
  service makes on them is a primitive that logs an event and may fail.

  A rating is a DECIMAL(3, 1) column. A value of that column is represented by its number
  of tenths (8.8 is 88). The request model carries a float; the rounding of that float to
  the column's scale is done by the store and is not part of this model, so a request
  carries the tenths the store will keep.
\<close>

text \<open>The request body, class \<^verbatim>\<open>Movie\<close> (the id of a request is never read).\<close>

record movie =
  title :: string
  director :: string
  year :: int
  genre :: string
  rating :: "int option"

text \<open>
  The Python value under the key \<^verbatim>\<open>rating\<close> of a dict: \<^verbatim>\<open>None\<close>, a \<^verbatim>\<open>Decimal\<close> as the
  store cursor returns it, or a \<^verbatim>\<open>str\<close> as \<^verbatim>\<open>json.loads\<close> returns it after
  \<^verbatim>\<open>json.dumps(..., default=str)\<close> has written the Decimal as a string.
\<close>

datatype rating_value = RNone | RDecimal int | RStr string

text \<open>\<^verbatim>\<open>dict(row)\<close> of a row of table \<^verbatim>\<open>movies\<close>.\<close>

record movie_data =
  md_id :: int
  md_title :: string
  md_director :: string
  md_year :: int
  md_genre :: string
  md_rating :: rating_value

text \<open>What a handler returns: one dict, or a list of dicts.\<close>

datatype pyval = PyDict movie_data | PyList "movie_data list"

text \<open>
  The JSON documents the service writes to the cache. The text of a document is produced
  and parsed by the \<^verbatim>\<open>json\<close> library; the model keeps the document itself: an object with
  the six members of a row, or an array of such objects. The member \<^verbatim>\<open>rating\<close> is
  \<^verbatim>\<open>null\<close> or a JSON string.
\<close>

record json_object =
  j_id :: int
  j_title :: string
  j_director :: string
  j_year :: int
  j_genre :: string
  j_rating :: "string option"

datatype json = JObject json_object | JArray "json_object list"

subsection \<open>Decimal rendering of integers and of Decimals\<close>

definition digit_char :: "nat \<Rightarrow> char" where
  "digit_char d = ''0123456789'' ! d"

function str_nat :: "nat \<Rightarrow> string" where
  "str_nat n = (if n < 10 then [digit_char n] else str_nat (n div 10) @ [digit_char (n mod 10)])"
  by pat_completeness auto
termination
  by (relation "measure id") auto

declare str_nat.simps [simp del]

text \<open>\<^verbatim>\<open>str(i)\<close> of a Python int, as the f-string of \<^verbatim>\<open>get_cache_key\<close> formats it.\<close>

definition str_int :: "int \<Rightarrow> string" where
  "str_int i = (if i < 0 then CHR ''-'' # str_nat (nat (- i)) else str_nat (nat i))"

text \<open>\<^verbatim>\<open>str(d)\<close> of a Decimal with one fractional digit, given by its tenths.\<close>

definition str_decimal :: "int \<Rightarrow> string" where
  "str_decimal d =
     (if d < 0 then ''-'' else '''') @ str_nat (nat \<bar>d\<bar> div 10) @ ''.'' @ str_nat (nat \<bar>d\<bar> mod 10)"

subsection \<open>\<^verbatim>\<open>json.dumps(..., default=str)\<close> and \<^verbatim>\<open>json.loads\<close>\<close>

text \<open>\<^verbatim>\<open>default=str\<close> is called on the values the encoder does not know: the Decimal.\<close>

fun dumps_rating :: "rating_value \<Rightarrow> string option" where
  "dumps_rating RNone = None"
| "dumps_rating (RDecimal d) = Some (str_decimal d)"
| "dumps_rating (RStr s) = Some s"

definition dumps_object :: "movie_data \<Rightarrow> json_object" where
  "dumps_object m =
     \<lparr>j_id = md_id m, j_title = md_title m, j_director = md_director m, j_year = md_year m,
      j_genre = md_genre m, j_rating = dumps_rating (md_rating m)\<rparr>"

fun json_dumps :: "pyval \<Rightarrow> json" where
  "json_dumps (PyDict m) = JObject (dumps_object m)"
| "json_dumps (PyList ms) = JArray (map dumps_object ms)"

fun loads_rating :: "string option \<Rightarrow> rating_value" where
  "loads_rating None = RNone"
| "loads_rating (Some s) = RStr s"

definition loads_object :: "json_object \<Rightarrow> movie_data" where
  "loads_object j =
     \<lparr>md_id = j_id j, md_title = j_title j, md_director = j_director j, md_year = j_year j,
      md_genre = j_genre j, md_rating = loads_rating (j_rating j)\<rparr>"

fun json_loads :: "json \<Rightarrow> pyval" where
  "json_loads (JObject j) = PyDict (loads_object j)"
| "json_loads (JArray js) = PyList (map loads_object js)"

subsection \<open>Cache keys and the time to live\<close>

definition CACHE_TTL :: nat where
  "CACHE_TTL = 3600"

definition get_cache_key :: "int \<Rightarrow> string" where
  "get_cache_key movie_id = ''movie:'' @ str_int movie_id"

definition get_all_movies_cache_key :: string where
  "get_all_movies_cache_key = ''movies:all''"

section \<open>The store, the cache and the calls on them\<close>

datatype error = NotFound | StoreFailure | CacheFailure

text \<open>The SQL statements of the service, with their parameters.\<close>

datatype sql =
    Insert movie
  | SelectByIds "int list"
  | SelectByGenre string
  | SelectAll
  | SelectById int
  | Update int movie
  | DeleteById int

datatype event =
    Connect
  | Execute sql
  | Commit
  | Rollback
  | Close
  | CacheGet string
  | CacheSetex string nat json
  | CacheDelete string

text \<open>
  What goes wrong during one operation, chosen by the environment: nothing, the connection
  cannot be opened, the statement fails (the store is unavailable, or the statement
  violates a constraint of the table), the commit fails, or the cache call number \<open>n\<close> of
  the operation (counted from 0) fails. The first failure ends the operation, so one
  operation meets at most one.
\<close>

datatype fault = NoFault | ConnectFails | ExecuteFails | CommitFails | CacheFails nat

text \<open>
  The table \<^verbatim>\<open>movies\<close> as the list of its rows, the sequence behind the SERIAL column, the
  cache as a map from keys to a time to live and a document, the calls made so far, and the
  fault the running operation will meet.
\<close>

record world =
  rows :: "movie_data list"
  next_id :: int
  cache :: "string \<rightharpoonup> nat \<times> json"
  trace :: "event list"
  fault :: fault

type_synonym 'a io = "world \<Rightarrow> (error + 'a) \<times> world"

definition io_return :: "'a \<Rightarrow> 'a io" where
  "io_return v w = (Inr v, w)"

definition io_raise :: "error \<Rightarrow> 'a io" where
  "io_raise e w = (Inl e, w)"

text \<open>Sequencing: an exception of the first part skips the second.\<close>

definition io_bind :: "'a io \<Rightarrow> ('a \<Rightarrow> 'b io) \<Rightarrow> 'b io" where
  "io_bind m f w = (case m w of (Inl e, w1) \<Rightarrow> (Inl e, w1) | (Inr v, w1) \<Rightarrow> f v w1)"

definition log :: "event \<Rightarrow> world \<Rightarrow> world" where
  "log e w = w\<lparr>trace := trace w @ [e]\<rparr>"

subsection \<open>Redis\<close>

text \<open>Whether this cache call is the one that fails, and the fault left for the rest.\<close>

definition cache_call :: "world \<Rightarrow> bool \<times> world" where
  "cache_call w =
     (case fault w of
        CacheFails 0 \<Rightarrow> (True, w\<lparr>fault := NoFault\<rparr>)
      | CacheFails (Suc n) \<Rightarrow> (False, w\<lparr>fault := CacheFails n\<rparr>)
      | _ \<Rightarrow> (False, w))"

definition redis_get :: "string \<Rightarrow> json option io" where
  "redis_get k w =
     (case cache_call (log (CacheGet k) w) of
        (True, w1) \<Rightarrow> (Inl CacheFailure, w1)
      | (False, w1) \<Rightarrow> (Inr (map_option snd (cache w1 k)), w1))"

definition redis_setex :: "string \<Rightarrow> nat \<Rightarrow> json \<Rightarrow> unit io" where
  "redis_setex k ttl v w =
     (case cache_call (log (CacheSetex k ttl v) w) of
        (True, w1) \<Rightarrow> (Inl CacheFailure, w1)
      | (False, w1) \<Rightarrow> (Inr (), w1\<lparr>cache := (cache w1)(k \<mapsto> (ttl, v))\<rparr>))"

definition redis_delete :: "string \<Rightarrow> unit io" where
  "redis_delete k w =
     (case cache_call (log (CacheDelete k) w) of
        (True, w1) \<Rightarrow> (Inl CacheFailure, w1)
      | (False, w1) \<Rightarrow> (Inr (), w1\<lparr>cache := (cache w1)(k := None)\<rparr>))"

subsection \<open>The store\<close>

text \<open>The row the store keeps for a request, under a given id.\<close>

definition row_of :: "int \<Rightarrow> movie \<Rightarrow> movie_data" where
  "row_of i m =
     \<lparr>md_id = i, md_title = title m, md_director = director m, md_year = year m,
      md_genre = genre m,
      md_rating = (case rating m of None \<Rightarrow> RNone | Some d \<Rightarrow> RDecimal d)\<rparr>"

text \<open>
  \<^verbatim>\<open>cur.execute\<close> followed by \<^verbatim>\<open>fetchall\<close>: the statement is logged, fails if the fault says
  so, and otherwise changes the table and yields its result rows (for INSERT, UPDATE and
  DELETE the rows of the RETURNING clause; DELETE returns only the id of a deleted row, of
  which the handler tests the presence, and the model yields the row). A statement that
  fails changes nothing. The changes are those of the open transaction;
  \<open>get_db_connection\<close> keeps or undoes them.
\<close>

definition execute :: "sql \<Rightarrow> movie_data list io" where
  "execute q w =
     (let w1 = log (Execute q) w in
      if fault w1 = ExecuteFails then (Inl StoreFailure, w1\<lparr>fault := NoFault\<rparr>)
      else
        (case q of
           Insert m \<Rightarrow>
             (let r = row_of (next_id w1) m
              in (Inr [r], w1\<lparr>rows := rows w1 @ [r], next_id := next_id w1 + 1\<rparr>))
         | SelectByIds ids \<Rightarrow> (Inr (filter (\<lambda>r. md_id r \<in> set ids) (rows w1)), w1)
         | SelectByGenre g \<Rightarrow> (Inr (filter (\<lambda>r. md_genre r = g) (rows w1)), w1)
         | SelectAll \<Rightarrow> (Inr (rows w1), w1)
         | SelectById i \<Rightarrow> (Inr (filter (\<lambda>r. md_id r = i) (rows w1)), w1)
         | Update i m \<Rightarrow>
             (Inr (map (\<lambda>r. row_of i m) (filter (\<lambda>r. md_id r = i) (rows w1))),
              w1\<lparr>rows := map (\<lambda>r. if md_id r = i then row_of i m else r) (rows w1)\<rparr>)
         | DeleteById i \<Rightarrow>
             (Inr (filter (\<lambda>r. md_id r = i) (rows w1)),
              w1\<lparr>rows := filter (\<lambda>r. md_id r \<noteq> i) (rows w1)\<rparr>)))"

text \<open>\<^verbatim>\<open>cur.fetchone()\<close>: the first row of the result, or \<^verbatim>\<open>None\<close>.\<close>

definition fetchone :: "movie_data list \<Rightarrow> movie_data option" where
  "fetchone rs = (case rs of [] \<Rightarrow> None | r # _ \<Rightarrow> Some r)"

text \<open>
  The context manager \<^verbatim>\<open>get_db_connection\<close>. \<^verbatim>\<open>psycopg2.connect\<close> is called before the
  \<^verbatim>\<open>try\<close>: when it fails nothing else happens. The body runs inside the \<^verbatim>\<open>try\<close>; when it
  returns, \<^verbatim>\<open>conn.commit()\<close> runs, still inside the \<^verbatim>\<open>try\<close>. Any exception, of the body
  or of the commit, is answered by \<^verbatim>\<open>conn.rollback()\<close> and raised again. The rollback puts
  the table back; the sequence and the cache are not transactional and keep their values.
\<close>

definition get_db_connection :: "'a io \<Rightarrow> 'a io" where
  "get_db_connection body w =
     (let w0 = log Connect w in
      if fault w0 = ConnectFails then (Inl StoreFailure, w0\<lparr>fault := NoFault\<rparr>)
      else
        (case body w0 of
           (Inr v, w1) \<Rightarrow>
             (let w2 = log Commit w1 in
              if fault w2 = CommitFails
              then (Inl StoreFailure, log Close (log Rollback (w2\<lparr>rows := rows w0, fault := NoFault\<rparr>)))
              else (Inr v, log Close w2))
         | (Inl e, w1) \<Rightarrow> (Inl e, log Close (log Rollback (w1\<lparr>rows := rows w0\<rparr>)))))"

section \<open>The operations\<close>

text \<open>
  Each handler is written as in the source: the body of the \<^verbatim>\<open>with\<close> block is the
  argument of \<open>get_db_connection\<close>. A test \<^verbatim>\<open>if cached_data:\<close> is a test for presence:
  the values under the keys are JSON texts, which are never empty. \<^verbatim>\<open>INSERT ... RETURNING\<close>
  yields the inserted row, so the branch of \<open>create_movie\<close> for an empty result is
  never taken.
\<close>

definition create_movie :: "movie \<Rightarrow> pyval io" where
  "create_movie m =
     get_db_connection
       (io_bind (execute (Insert m)) (\<lambda>result.
          case fetchone result of
            None \<Rightarrow> io_raise StoreFailure
          | Some movie_data \<Rightarrow>
              io_bind (redis_setex (get_cache_key (md_id movie_data)) CACHE_TTL
                         (json_dumps (PyDict movie_data))) (\<lambda>_.
              io_bind (redis_delete get_all_movies_cache_key) (\<lambda>_.
              io_return (PyDict movie_data)))))"

text \<open>The first loop of \<^verbatim>\<open>get_movies_batch\<close>: probe the cache for each id.\<close>

fun probe_cache :: "int list \<Rightarrow> pyval list \<Rightarrow> int list \<Rightarrow> (pyval list \<times> int list) io" where
  "probe_cache [] movies uncached_ids = io_return (movies, uncached_ids)"
| "probe_cache (movie_id # rest) movies uncached_ids =
     io_bind (redis_get (get_cache_key movie_id)) (\<lambda>cached_data.
       case cached_data of
         Some d \<Rightarrow> probe_cache rest (movies @ [json_loads d]) uncached_ids
       | None \<Rightarrow> probe_cache rest movies (uncached_ids @ [movie_id]))"

text \<open>The second loop: append each fetched row and write it to the cache.\<close>

fun cache_rows :: "movie_data list \<Rightarrow> pyval list \<Rightarrow> pyval list io" where
  "cache_rows [] movies = io_return movies"
| "cache_rows (movie_data # rest) movies =
     io_bind (redis_setex (get_cache_key (md_id movie_data)) CACHE_TTL
                (json_dumps (PyDict movie_data))) (\<lambda>_.
       cache_rows rest (movies @ [PyDict movie_data]))"

definition get_movies_batch :: "int list \<Rightarrow> pyval list io" where
  "get_movies_batch movie_ids =
     (if movie_ids = [] then io_return []
      else
        io_bind (probe_cache movie_ids [] []) (\<lambda>(movies, uncached_ids).
          if uncached_ids \<noteq> []
          then get_db_connection
                 (io_bind (execute (SelectByIds uncached_ids)) (\<lambda>results.
                    cache_rows results movies))
          else io_return movies))"

text \<open>
  \<^verbatim>\<open>get_movies(genre)\<close>: the test \<^verbatim>\<open>if genre:\<close> is false for \<^verbatim>\<open>None\<close> and for the empty
  string.
\<close>

definition get_movies :: "string option \<Rightarrow> pyval io" where
  "get_movies g =
     (if g \<noteq> None \<and> g \<noteq> Some ''''
      then get_db_connection
             (io_bind (execute (SelectByGenre (the g))) (\<lambda>results.
                io_return (PyList results)))
      else
        io_bind (redis_get get_all_movies_cache_key) (\<lambda>cached_data.
          case cached_data of
            Some d \<Rightarrow> io_return (json_loads d)
          | None \<Rightarrow>
              get_db_connection
                (io_bind (execute SelectAll) (\<lambda>results.
                 io_bind (redis_setex get_all_movies_cache_key CACHE_TTL
                            (json_dumps (PyList results))) (\<lambda>_.
                 io_return (PyList results))))))"

definition get_movie :: "int \<Rightarrow> pyval io" where
  "get_movie movie_id =
     io_bind (redis_get (get_cache_key movie_id)) (\<lambda>cached_data.
       case cached_data of
         Some d \<Rightarrow> io_return (json_loads d)
       | None \<Rightarrow>
           get_db_connection
             (io_bind (execute (SelectById movie_id)) (\<lambda>result.
                case fetchone result of
                  None \<Rightarrow> io_raise NotFound
                | Some movie_data \<Rightarrow>
                    io_bind (redis_setex (get_cache_key movie_id) CACHE_TTL
                               (json_dumps (PyDict movie_data))) (\<lambda>_.
                    io_return (PyDict movie_data)))))"

definition update_movie :: "int \<Rightarrow> movie \<Rightarrow> pyval io" where
  "update_movie movie_id m =
     get_db_connection
       (io_bind (execute (Update movie_id m)) (\<lambda>result.
          case fetchone result of
            None \<Rightarrow> io_raise NotFound
          | Some movie_data \<Rightarrow>
              io_bind (redis_setex (get_cache_key movie_id) CACHE_TTL
                         (json_dumps (PyDict movie_data))) (\<lambda>_.
              io_bind (redis_delete get_all_movies_cache_key) (\<lambda>_.
              io_return (PyDict movie_data)))))"

definition delete_movie :: "int \<Rightarrow> string io" where
  "delete_movie movie_id =
     get_db_connection
       (io_bind (execute (DeleteById movie_id)) (\<lambda>result.
          case fetchone result of
            None \<Rightarrow> io_raise NotFound
          | Some _ \<Rightarrow>
              io_bind (redis_delete (get_cache_key movie_id)) (\<lambda>_.
              io_bind (redis_delete get_all_movies_cache_key) (\<lambda>_.
              io_return ''Movie deleted successfully''))))"

section \<open>Vocabulary of the properties\<close>

subsection \<open>Faults and events\<close>

text \<open>The faults that strike a cache call, and the calls on the cache among the events.\<close>

fun is_cache_fault :: "fault \<Rightarrow> bool" where
  "is_cache_fault (CacheFails n) = True"
| "is_cache_fault _ = False"

fun is_cache_event :: "event \<Rightarrow> bool" where
  "is_cache_event (CacheGet k) = True"
| "is_cache_event (CacheSetex k t v) = True"
| "is_cache_event (CacheDelete k) = True"
| "is_cache_event _ = False"

text \<open>The events an operation added to the trace.\<close>

definition new_events :: "world \<Rightarrow> world \<Rightarrow> event list" where
  "new_events w w' = drop (length (trace w)) (trace w')"

subsection \<open>Mutations under every fault\<close>

text \<open>
  What a mutation handler does, as a function of the fault it meets and of whether its
  statement matched a row (INSERT always does). \<open>calls\<close> are the cache calls of the
  handler, in order. The events: with no connection, nothing more; with a failing statement
  or no matching row, a rollback; otherwise the cache calls up to and including the first
  that fails, then the rollback, or all of them and then the commit, followed by a rollback
  when the commit fails. The cache calls that took effect are those before the failing one.
  The transaction is committed when the row matched and nothing failed (a fault on a cache
  call the handler never makes does not strike). Otherwise the handler raises: the store
  failure, the cache failure, or \<open>NotFound\<close>.
\<close>

fun apply_call :: "(string \<rightharpoonup> nat \<times> json) \<Rightarrow> event \<Rightarrow> (string \<rightharpoonup> nat \<times> json)" where
  "apply_call c (CacheSetex k t v) = c(k \<mapsto> (t, v))"
| "apply_call c (CacheDelete k) = c(k := None)"
| "apply_call c _ = c"

definition mutation_events :: "sql \<Rightarrow> event list \<Rightarrow> bool \<Rightarrow> fault \<Rightarrow> event list" where
  "mutation_events q calls matched f =
     (case f of
        ConnectFails \<Rightarrow> [Connect]
      | ExecuteFails \<Rightarrow> [Connect, Execute q, Rollback, Close]
      | NoFault \<Rightarrow>
          if matched then Connect # Execute q # calls @ [Commit, Close]
          else [Connect, Execute q, Rollback, Close]
      | CommitFails \<Rightarrow>
          if matched then Connect # Execute q # calls @ [Commit, Rollback, Close]
          else [Connect, Execute q, Rollback, Close]
      | CacheFails n \<Rightarrow>
          if matched
          then (if n < length calls then Connect # Execute q # take (Suc n) calls @ [Rollback, Close]
                else Connect # Execute q # calls @ [Commit, Close])
          else [Connect, Execute q, Rollback, Close])"

definition completed_calls :: "event list \<Rightarrow> bool \<Rightarrow> fault \<Rightarrow> event list" where
  "completed_calls calls matched f =
     (case f of
        ConnectFails \<Rightarrow> []
      | ExecuteFails \<Rightarrow> []
      | CacheFails n \<Rightarrow> if matched then take n calls else []
      | _ \<Rightarrow> if matched then calls else [])"

definition committed :: "event list \<Rightarrow> bool \<Rightarrow> fault \<Rightarrow> bool" where
  "committed calls matched f =
     (matched \<and> (case f of NoFault \<Rightarrow> True | CacheFails n \<Rightarrow> length calls \<le> n | _ \<Rightarrow> False))"

definition mutation_error :: "event list \<Rightarrow> bool \<Rightarrow> fault \<Rightarrow> error" where
  "mutation_error calls matched f =
     (case f of
        ConnectFails \<Rightarrow> StoreFailure
      | ExecuteFails \<Rightarrow> StoreFailure
      | CommitFails \<Rightarrow> if matched then StoreFailure else NotFound
      | CacheFails n \<Rightarrow> if matched then CacheFailure else NotFound
      | NoFault \<Rightarrow> NotFound)"

text \<open>The cache calls of the three handlers.\<close>

definition create_calls :: "world \<Rightarrow> movie \<Rightarrow> event list" where
  "create_calls w m =
     [CacheSetex (get_cache_key (next_id w)) CACHE_TTL (json_dumps (PyDict (row_of (next_id w) m))),
      CacheDelete get_all_movies_cache_key]"

definition update_calls :: "int \<Rightarrow> movie \<Rightarrow> event list" where
  "update_calls i m =
     [CacheSetex (get_cache_key i) CACHE_TTL (json_dumps (PyDict (row_of i m))),
      CacheDelete get_all_movies_cache_key]"

definition delete_calls :: "int \<Rightarrow> event list" where
  "delete_calls i = [CacheDelete (get_cache_key i), CacheDelete get_all_movies_cache_key]"

text \<open>
  A trace keeps its cache calls inside the transaction when none comes before the
  statement has executed, and none after the commit.
\<close>

fun until_commit :: "event list \<Rightarrow> bool" where
  "until_commit [] = True"
| "until_commit (e # es) =
     (if e = Commit then list_all (\<lambda>e. \<not> is_cache_event e) es else until_commit es)"

fun calls_inside_transaction :: "event list \<Rightarrow> bool" where
  "calls_inside_transaction [] = True"
| "calls_inside_transaction (Execute q # es) = until_commit es"
| "calls_inside_transaction (e # es) = (\<not> is_cache_event e \<and> calls_inside_transaction es)"

subsection \<open>Reading a decimal rendering back\<close>

text \<open>Used to show that \<open>str_nat\<close> loses nothing.\<close>

definition digit_val :: "char \<Rightarrow> nat" where
  "digit_val c = of_char c - 48"

definition nat_of_str :: "string \<Rightarrow> nat" where
  "nat_of_str s = foldl (\<lambda>a c. 10 * a + digit_val c) 0 s"

subsection \<open>Batch lookup\<close>

text \<open>
  Names for what the two loops of \<open>get_movies_batch\<close> compute from a state: the
  deserialized hits in input order, the ids that miss, the rows the store returns for them,
  and the cache write and the event of one fetched row.
\<close>

definition cached_movies :: "world \<Rightarrow> int list \<Rightarrow> pyval list" where
  "cached_movies w ids =
     concat (map (\<lambda>i. case cache w (get_cache_key i) of
                          None \<Rightarrow> [] | Some (t, d) \<Rightarrow> [json_loads d]) ids)"

definition uncached :: "world \<Rightarrow> int list \<Rightarrow> int list" where
  "uncached w ids = filter (\<lambda>i. cache w (get_cache_key i) = None) ids"

definition fetched :: "world \<Rightarrow> int list \<Rightarrow> movie_data list" where
  "fetched w ids = filter (\<lambda>r. md_id r \<in> set (uncached w ids)) (rows w)"

definition write_row :: "(string \<rightharpoonup> nat \<times> json) \<Rightarrow> movie_data \<Rightarrow> (string \<rightharpoonup> nat \<times> json)" where
  "write_row c r = c(get_cache_key (md_id r) \<mapsto> (CACHE_TTL, json_dumps (PyDict r)))"

definition setex_event :: "movie_data \<Rightarrow> event" where
  "setex_event r = CacheSetex (get_cache_key (md_id r)) CACHE_TTL (json_dumps (PyDict r))"

text \<open>
  \<^verbatim>\<open>movie['id']\<close> of a returned value, and the property that the documents under the
  per-id keys of the given ids carry the id of their key.
\<close>

fun pyval_id :: "pyval \<Rightarrow> int option" where
  "pyval_id (PyDict m) = Some (md_id m)"
| "pyval_id (PyList ms) = None"

definition keyed_by_id :: "world \<Rightarrow> int list \<Rightarrow> bool" where
  "keyed_by_id w ids =
     list_all (\<lambda>i. case cache w (get_cache_key i) of
                     None \<Rightarrow> True | Some (t, d) \<Rightarrow> pyval_id (json_loads d) = Some i) ids"

subsection \<open>The unfiltered listing after a mutation\<close>

text \<open>
  The next unfiltered listing, with nothing failing, misses the cache, queries the store for
  all rows and writes the collection key with \<open>CACHE_TTL\<close>.
\<close>

definition list_all_refills :: "world \<Rightarrow> bool" where
  "list_all_refills w1 \<longleftrightarrow>
     get_movies None (w1\<lparr>fault := NoFault\<rparr>) =
       (Inr (PyList (rows w1)),
        w1\<lparr>fault := NoFault,
           cache := (cache w1)(get_all_movies_cache_key \<mapsto>
                                 (CACHE_TTL, json_dumps (PyList (rows w1)))),
           trace := trace w1 @ [CacheGet get_all_movies_cache_key, Connect, Execute SelectAll,
                                CacheSetex get_all_movies_cache_key CACHE_TTL
                                  (json_dumps (PyList (rows w1))),
                                Commit, Close]\<rparr>)"

subsection \<open>The response model\<close>

text \<open>
  The handlers are declared with \<^verbatim>\<open>response_model=Movie\<close>: what a caller receives is the
  returned dict validated as a \<^verbatim>\<open>Movie\<close>, whose rating is a float. Floating point is not
  modelled: a float is represented by the decimal literal it is parsed from. \<^verbatim>\<open>float\<close> of a
  \<^verbatim>\<open>Decimal\<close> parses \<^verbatim>\<open>str\<close> of the Decimal, and a \<^verbatim>\<open>str\<close> is parsed as it is, so both
  routes are the float of one literal. A list is not a \<^verbatim>\<open>Movie\<close>.
\<close>

datatype pyfloat = FloatOf string

record movie_response =
  r_id :: "int option"
  r_title :: string
  r_director :: string
  r_year :: int
  r_genre :: string
  r_rating :: "pyfloat option"

fun response_rating :: "rating_value \<Rightarrow> pyfloat option" where
  "response_rating RNone = None"
| "response_rating (RDecimal d) = Some (FloatOf (str_decimal d))"
| "response_rating (RStr s) = Some (FloatOf s)"

fun response_model_Movie :: "pyval \<Rightarrow> movie_response option" where
  "response_model_Movie (PyDict m) =
     Some \<lparr>r_id = Some (md_id m), r_title = md_title m, r_director = md_director m,
           r_year = md_year m, r_genre = md_genre m, r_rating = response_rating (md_rating m)\<rparr>"
| "response_model_Movie (PyList ms) = None"

subsection \<open>Freshness of the cache\<close>

text \<open>
  A per-id entry is fresh when the store has a row with that id and the entry is that
  row's document with \<open>CACHE_TTL\<close>; the collection entry is fresh when it is the
  document of all rows. A state is consistent when the ids of the table are unique and
  below the sequence, and every entry that is present is fresh.
\<close>

definition entry_fresh :: "movie_data list \<Rightarrow> (string \<rightharpoonup> nat \<times> json) \<Rightarrow> int \<Rightarrow> bool" where
  "entry_fresh rs c i =
     (case c (get_cache_key i) of
        None \<Rightarrow> True
      | Some e \<Rightarrow>
          (case find (\<lambda>r. md_id r = i) rs of
             None \<Rightarrow> False
           | Some r \<Rightarrow> e = (CACHE_TTL, json_dumps (PyDict r))))"

definition collection_fresh :: "movie_data list \<Rightarrow> (string \<rightharpoonup> nat \<times> json) \<Rightarrow> bool" where
  "collection_fresh rs c =
     (case c get_all_movies_cache_key of
        None \<Rightarrow> True
      | Some e \<Rightarrow> e = (CACHE_TTL, json_dumps (PyList rs)))"

definition coherent :: "movie_data list \<Rightarrow> int \<Rightarrow> (string \<rightharpoonup> nat \<times> json) \<Rightarrow> bool" where
  "coherent rs n c \<longleftrightarrow>
     distinct (map md_id rs) \<and> (\<forall>r\<in>set rs. md_id r < n)
     \<and> (\<forall>i. entry_fresh rs c i) \<and> collection_fresh rs c"

definition consistent :: "world \<Rightarrow> bool" where
  "consistent w = coherent (rows w) (next_id w) (cache w)"

definition collection_ok :: "world \<Rightarrow> bool" where
  "collection_ok w = collection_fresh (rows w) (cache w)"

subsection \<open>Sequences of operations\<close>

text \<open>
  Each operation runs with the fault the environment chooses for it. \<open>OpExpire\<close> is
  the cache dropping a key whose time to live has run out.
\<close>

datatype op =
    OpGet int
  | OpGetBatch "int list"
  | OpGetMovies "string option"
  | OpCreate movie
  | OpUpdate int movie
  | OpDelete int
  | OpExpire string

fun run_op :: "op \<Rightarrow> world \<Rightarrow> world" where
  "run_op (OpGet i) w = snd (get_movie i w)"
| "run_op (OpGetBatch ids) w = snd (get_movies_batch ids w)"
| "run_op (OpGetMovies g) w = snd (get_movies g w)"
| "run_op (OpCreate m) w = snd (create_movie m w)"
| "run_op (OpUpdate i m) w = snd (update_movie i m w)"
| "run_op (OpDelete i) w = snd (delete_movie i w)"
| "run_op (OpExpire k) w = w\<lparr>cache := (cache w)(k := None)\<rparr>"

fun run :: "(op \<times> fault) list \<Rightarrow> world \<Rightarrow> world" where
  "run [] w = w"
| "run ((p, f) # rest) w = run rest (run_op p (w\<lparr>fault := f\<rparr>))"

text \<open>
  The failures that leave a per-id entry the store does not have: a create or an update
  whose per-id write succeeded, and which then fails at the collection-key delete (its cache
  call number 1) or at the commit.
\<close>

fun harmful :: "op \<Rightarrow> fault \<Rightarrow> bool" where
  "harmful (OpCreate m) f = (f = CommitFails \<or> f = CacheFails 1)"
| "harmful (OpUpdate i m) f = (f = CommitFails \<or> f = CacheFails 1)"
| "harmful _ f = False"

text \<open>
  The per-id entries that may be unbacked, followed along a sequence. A step taints the id
  whose per-id entry it writes when it is a create or an update that fails after that write
  (and, for an update, the document written differs from that of the row the rollback
  restores). A step clears an id when it rewrites the entry from a committed update, deletes
  it, or the entry expires. An id is suspect after a sequence when it was tainted and not
  cleared since. \<open>store_ok\<close> is the part of consistency that concerns the table alone.
\<close>

definition store_ok :: "world \<Rightarrow> bool" where
  "store_ok w \<longleftrightarrow> distinct (map md_id (rows w)) \<and> (\<forall>r\<in>set (rows w). md_id r < next_id w)"

definition fails_after_write :: "fault \<Rightarrow> bool" where
  "fails_after_write f = (f = CommitFails \<or> f = CacheFails 1)"

fun taints :: "op \<Rightarrow> fault \<Rightarrow> world \<Rightarrow> int \<Rightarrow> bool" where
  "taints (OpCreate m) f w i = (i = next_id w \<and> fails_after_write f)"
| "taints (OpUpdate j m) f w i =
     (i = j \<and> fails_after_write f
      \<and> (case find (\<lambda>r. md_id r = j) (rows w) of
            None \<Rightarrow> False
          | Some r \<Rightarrow> json_dumps (PyDict (row_of j m)) \<noteq> json_dumps (PyDict r)))"
| "taints _ f w i = False"

fun clears :: "op \<Rightarrow> fault \<Rightarrow> world \<Rightarrow> int \<Rightarrow> bool" where
  "clears (OpExpire k) f w i = (k = get_cache_key i)"
| "clears (OpDelete j) f w i =
     (i = j \<and> find (\<lambda>r. md_id r = j) (rows w) \<noteq> None
      \<and> f \<noteq> ConnectFails \<and> f \<noteq> ExecuteFails \<and> f \<noteq> CacheFails 0)"
| "clears (OpUpdate j m) f w i =
     (i = j \<and> committed (update_calls j m) (find (\<lambda>r. md_id r = j) (rows w) \<noteq> None) f)"
| "clears _ f w i = False"

fun suspect :: "bool \<Rightarrow> (op \<times> fault) list \<Rightarrow> world \<Rightarrow> int \<Rightarrow> bool" where
  "suspect s [] w i = s"
| "suspect s ((p, f) # rest) w i =
     suspect ((s \<and> \<not> clears p f w i) \<or> taints p f w i) rest (run_op p (w\<lparr>fault := f\<rparr>)) i"

section \<open>Example data\<close>

text \<open>
  The empty store with an empty cache; one request and a second one with another rating;
  the store with the first row, uncached and cached; two rows in the store, the first of
  them cached; and a sequence of operations.
\<close>

definition w0 :: world where
  "w0 = \<lparr>rows = [], next_id = 1, cache = Map.empty, trace = [], fault = NoFault\<rparr>"

definition inception :: movie where
  "inception =
     \<lparr>title = ''Inception'', director = ''Christopher Nolan'', year = 2010, genre = ''Sci-Fi'',
      rating = Some 88\<rparr>"

definition inception_rerated :: movie where
  "inception_rerated = inception\<lparr>rating := Some 90\<rparr>"

definition inception_row :: movie_data where
  "inception_row = row_of 1 inception"

definition w_stored :: world where
  "w_stored = w0\<lparr>rows := [inception_row], next_id := 2\<rparr>"

definition w_cached :: world where
  "w_cached =
     w_stored\<lparr>cache := [''movie:1'' \<mapsto> (3600, json_dumps (PyDict inception_row))]\<rparr>"

definition w_two :: world where
  "w_two = w_cached\<lparr>rows := [inception_row, row_of 2 inception_rerated], next_id := 3\<rparr>"

definition ops_example :: "(op \<times> fault) list" where
  "ops_example =
     [(OpCreate inception, NoFault), (OpUpdate 1 inception_rerated, ExecuteFails),
      (OpGetMovies None, NoFault)]"

text \<open>
  The store with the first row, cached under its id and in the collection key; and a
  sequence in which a create fails at its commit and the entry it left then expires.
\<close>

definition w_listed :: world where
  "w_listed =
     w_stored\<lparr>cache := [''movie:1'' \<mapsto> (3600, json_dumps (PyDict inception_row)),
                          ''movies:all'' \<mapsto> (3600, json_dumps (PyList [inception_row]))]\<rparr>"

definition ops_recovered :: "(op \<times> fault) list" where
  "ops_recovered =
     [(OpCreate inception, NoFault), (OpCreate inception_rerated, CommitFails),
      (OpExpire ''movie:2'', NoFault)]"

section \<open>Cache keys are distinct\<close>

lemma digit_val_digit_char: "d < 10 \<Longrightarrow> digit_val (digit_char d) = d"
proof -
  assume "d < 10"
  then have "d \<in> {0,1,2,3,4,5,6,7,8,9}" by auto
  then show ?thesis by (auto simp: digit_val_def digit_char_def)
qed

lemma nat_of_str_str_nat: "nat_of_str (str_nat n) = n"
proof (induction n rule: str_nat.induct)
  case (1 n)
  show ?case
  proof (cases "n < 10")
    case True
    then show ?thesis by (simp add: str_nat.simps [of n] nat_of_str_def digit_val_digit_char)
  next
    case False
    with 1 have "nat_of_str (str_nat (n div 10)) = n div 10" by simp
    with False show ?thesis
      by (simp add: str_nat.simps [of n] nat_of_str_def digit_val_digit_char)
  qed
qed

lemma str_nat_inj: "str_nat a = str_nat b \<Longrightarrow> a = b"
  by (metis nat_of_str_str_nat)

lemma digit_char_not_minus: "d < 10 \<Longrightarrow> digit_char d \<noteq> CHR ''-''"
proof -
  assume "d < 10"
  then have "d \<in> {0,1,2,3,4,5,6,7,8,9}" by auto
  then show ?thesis by (auto simp: digit_char_def)
qed

lemma hd_str_nat: "\<exists>c cs. str_nat n = c # cs \<and> c \<noteq> CHR ''-''"
proof (induction n rule: str_nat.induct)
  case (1 n)
  show ?case
  proof (cases "n < 10")
    case True
    then show ?thesis by (simp add: str_nat.simps [of n] digit_char_not_minus)
  next
    case False
    with 1 obtain c cs where "str_nat (n div 10) = c # cs" "c \<noteq> CHR ''-''" by blast
    with False show ?thesis by (simp add: str_nat.simps [of n])
  qed
qed

lemma str_int_inj: "str_int i = str_int j \<Longrightarrow> i = j"
proof -
  assume eq: "str_int i = str_int j"
  obtain c cs where a: "str_nat (nat i) = c # cs" "c \<noteq> CHR ''-''" using hd_str_nat by blast
  obtain d ds where b: "str_nat (nat j) = d # ds" "d \<noteq> CHR ''-''" using hd_str_nat by blast
  show ?thesis
  proof (cases "i < 0")
    case True
    note i = this
    show ?thesis
    proof (cases "j < 0")
      case True
      with i eq have "str_nat (nat (- i)) = str_nat (nat (- j))" by (simp add: str_int_def)
      then have "nat (- i) = nat (- j)" by (rule str_nat_inj)
      with i True show ?thesis by simp
    next
      case False
      with i eq b show ?thesis by (simp add: str_int_def)
    qed
  next
    case False
    note i = this
    show ?thesis
    proof (cases "j < 0")
      case True
      with i eq a show ?thesis by (simp add: str_int_def)
    next
      case False
      with i eq have "str_nat (nat i) = str_nat (nat j)" by (simp add: str_int_def)
      then have "nat i = nat j" by (rule str_nat_inj)
      with i False show ?thesis by simp
    qed
  qed
qed

lemma get_cache_key_inj [simp]: "(get_cache_key i = get_cache_key j) = (i = j)"
  by (auto simp: get_cache_key_def dest: str_int_inj)

lemma get_cache_key_not_all [simp]:
  "get_cache_key i \<noteq> get_all_movies_cache_key" "get_all_movies_cache_key \<noteq> get_cache_key i"
  by (auto simp: get_cache_key_def get_all_movies_cache_key_def)


lemma get_cache_key_1: "get_cache_key 1 = ''movie:1''"
  by (simp add: get_cache_key_def str_int_def str_nat.simps digit_char_def)

section \<open>The calls when they do not fail\<close>


lemma fetchone_filter: "fetchone (filter P xs) = find P xs"
  by (induction xs) (auto simp: fetchone_def)

lemma cache_call_ok: "\<not> is_cache_fault (fault w) \<Longrightarrow> cache_call w = (False, w)"
  by (cases "fault w") (auto simp: cache_call_def)

lemma redis_get_ok:
  "\<not> is_cache_fault (fault w) \<Longrightarrow>
   redis_get k w = (Inr (map_option snd (cache w k)), log (CacheGet k) w)"
  by (simp add: redis_get_def cache_call_ok log_def)

lemma redis_setex_ok:
  "\<not> is_cache_fault (fault w) \<Longrightarrow>
   redis_setex k ttl v w = (Inr (), (log (CacheSetex k ttl v) w)\<lparr>cache := (cache w)(k \<mapsto> (ttl, v))\<rparr>)"
  by (simp add: redis_setex_def cache_call_ok log_def)

lemma redis_delete_ok:
  "\<not> is_cache_fault (fault w) \<Longrightarrow>
   redis_delete k w = (Inr (), (log (CacheDelete k) w)\<lparr>cache := (cache w)(k := None)\<rparr>)"
  by (simp add: redis_delete_def cache_call_ok log_def)

section \<open>The operations when nothing fails, and when the store fails\<close>

lemma fetchone_map_filter: "fetchone (map f (filter P xs)) = map_option f (find P xs)"
  by (induction xs) (auto simp: fetchone_def)

lemmas io_defs = io_bind_def io_return_def io_raise_def get_db_connection_def execute_def
  log_def Let_def fetchone_filter fetchone_map_filter

lemma update_movie_not_found:
  "fault w = NoFault \<Longrightarrow> find (\<lambda>r. md_id r = i) (rows w) = None \<Longrightarrow>
   update_movie i m w =
     (Inl NotFound, w\<lparr>trace := trace w @ [Connect, Execute (Update i m), Rollback, Close]\<rparr>)"
  by (simp add: update_movie_def io_defs)

lemma delete_movie_not_found:
  "fault w = NoFault \<Longrightarrow> find (\<lambda>r. md_id r = i) (rows w) = None \<Longrightarrow>
   delete_movie i w =
     (Inl NotFound, w\<lparr>trace := trace w @ [Connect, Execute (DeleteById i), Rollback, Close]\<rparr>)"
  by (simp add: delete_movie_def io_defs)

lemma update_movie_found:
  "fault w = NoFault \<Longrightarrow> find (\<lambda>r. md_id r = i) (rows w) = Some r \<Longrightarrow>
   update_movie i m w =
     (Inr (PyDict (row_of i m)),
      w\<lparr>rows := map (\<lambda>r. if md_id r = i then row_of i m else r) (rows w),
        cache := (cache w)(get_cache_key i \<mapsto> (CACHE_TTL, json_dumps (PyDict (row_of i m))),
                           get_all_movies_cache_key := None),
        trace := trace w @ [Connect, Execute (Update i m),
                            CacheSetex (get_cache_key i) CACHE_TTL (json_dumps (PyDict (row_of i m))),
                            CacheDelete get_all_movies_cache_key, Commit, Close]\<rparr>)"
  by (simp add: update_movie_def io_defs redis_setex_ok redis_delete_ok)

lemma delete_movie_found:
  "fault w = NoFault \<Longrightarrow> find (\<lambda>r. md_id r = i) (rows w) = Some r \<Longrightarrow>
   delete_movie i w =
     (Inr ''Movie deleted successfully'',
      w\<lparr>rows := filter (\<lambda>r. md_id r \<noteq> i) (rows w),
        cache := (cache w)(get_cache_key i := None, get_all_movies_cache_key := None),
        trace := trace w @ [Connect, Execute (DeleteById i), CacheDelete (get_cache_key i),
                            CacheDelete get_all_movies_cache_key, Commit, Close]\<rparr>)"
  by (simp add: delete_movie_def io_defs redis_setex_ok redis_delete_ok)

lemma create_movie_ok:
  "fault w = NoFault \<Longrightarrow>
   create_movie m w =
     (Inr (PyDict (row_of (next_id w) m)),
      w\<lparr>rows := rows w @ [row_of (next_id w) m], next_id := next_id w + 1,
        cache := (cache w)(get_cache_key (next_id w) \<mapsto>
                             (CACHE_TTL, json_dumps (PyDict (row_of (next_id w) m))),
                           get_all_movies_cache_key := None),
        trace := trace w @ [Connect, Execute (Insert m),
                            CacheSetex (get_cache_key (next_id w)) CACHE_TTL
                              (json_dumps (PyDict (row_of (next_id w) m))),
                            CacheDelete get_all_movies_cache_key, Commit, Close]\<rparr>)"
  by (simp add: create_movie_def io_defs redis_setex_ok redis_delete_ok fetchone_def row_of_def)

lemma get_movies_all_miss:
  "fault w = NoFault \<Longrightarrow> g = None \<or> g = Some '''' \<Longrightarrow> cache w get_all_movies_cache_key = None \<Longrightarrow>
   get_movies g w =
     (Inr (PyList (rows w)),
      w\<lparr>cache := (cache w)(get_all_movies_cache_key \<mapsto> (CACHE_TTL, json_dumps (PyList (rows w)))),
        trace := trace w @ [CacheGet get_all_movies_cache_key, Connect, Execute SelectAll,
                            CacheSetex get_all_movies_cache_key CACHE_TTL (json_dumps (PyList (rows w))),
                            Commit, Close]\<rparr>)"
  by (auto simp add: get_movies_def io_defs redis_setex_ok redis_get_ok)

lemma get_movies_all_hit:
  "fault w = NoFault \<Longrightarrow> g = None \<or> g = Some '''' \<Longrightarrow> cache w get_all_movies_cache_key = Some (ttl, d) \<Longrightarrow>
   get_movies g w =
     (Inr (json_loads d), w\<lparr>trace := trace w @ [CacheGet get_all_movies_cache_key]\<rparr>)"
  by (auto simp add: get_movies_def io_defs redis_setex_ok redis_get_ok)

lemma get_movies_genre:
  "fault w = NoFault \<Longrightarrow> g \<noteq> '''' \<Longrightarrow>
   get_movies (Some g) w =
     (Inr (PyList (filter (\<lambda>r. md_genre r = g) (rows w))),
      w\<lparr>trace := trace w @ [Connect, Execute (SelectByGenre g), Commit, Close]\<rparr>)"
  by (auto simp add: get_movies_def io_defs)

lemma create_success_invalidates:
  "create_movie m w = (Inr v, w1) \<Longrightarrow> cache w1 get_all_movies_cache_key = None"
  by (auto simp: create_movie_def io_defs redis_setex_def redis_delete_def cache_call_def fetchone_def
      split: if_splits fault.splits nat.splits prod.splits sum.splits option.splits)

lemma update_success_invalidates:
  "update_movie i m w = (Inr v, w1) \<Longrightarrow> cache w1 get_all_movies_cache_key = None"
  by (auto simp: update_movie_def io_defs redis_setex_def redis_delete_def cache_call_def
      split: if_splits fault.splits nat.splits prod.splits sum.splits option.splits)

lemma delete_success_invalidates:
  "delete_movie i w = (Inr v, w1) \<Longrightarrow> cache w1 get_all_movies_cache_key = None"
  by (auto simp: delete_movie_def io_defs redis_setex_def redis_delete_def cache_call_def
      split: if_splits fault.splits nat.splits prod.splits sum.splits option.splits)

lemma get_movies_genre_frame:
  "g \<noteq> '''' \<Longrightarrow>
   cache (snd (get_movies (Some g) w)) = cache w \<and>
   filter is_cache_event (trace (snd (get_movies (Some g) w))) = filter is_cache_event (trace w)"
  by (cases "fault w") (auto simp: get_movies_def io_defs)

lemma connect_fails:
  "fault w = ConnectFails \<Longrightarrow>
   get_db_connection body w = (Inl StoreFailure, w\<lparr>trace := trace w @ [Connect], fault := NoFault\<rparr>)"
  by (simp add: get_db_connection_def log_def Let_def)

lemma create_movie_execute_fails:
  "fault w = ExecuteFails \<Longrightarrow>
   create_movie m w =
     (Inl StoreFailure,
      w\<lparr>trace := trace w @ [Connect, Execute (Insert m), Rollback, Close], fault := NoFault\<rparr>)"
  by (simp add: create_movie_def io_defs)

lemma update_movie_execute_fails:
  "fault w = ExecuteFails \<Longrightarrow>
   update_movie i m w =
     (Inl StoreFailure,
      w\<lparr>trace := trace w @ [Connect, Execute (Update i m), Rollback, Close], fault := NoFault\<rparr>)"
  by (simp add: update_movie_def io_defs)

lemma delete_movie_execute_fails:
  "fault w = ExecuteFails \<Longrightarrow>
   delete_movie i w =
     (Inl StoreFailure,
      w\<lparr>trace := trace w @ [Connect, Execute (DeleteById i), Rollback, Close], fault := NoFault\<rparr>)"
  by (simp add: delete_movie_def io_defs)

section \<open>Batch lookup: the two loops\<close>

lemma probe_cache_ok:
  "\<not> is_cache_fault (fault w) \<Longrightarrow>
   probe_cache ids movies unc w =
     (Inr (movies @ cached_movies w ids, unc @ uncached w ids),
      w\<lparr>trace := trace w @ map (\<lambda>i. CacheGet (get_cache_key i)) ids\<rparr>)"
proof (induction ids arbitrary: movies unc w)
  case Nil
  then show ?case by (simp add: io_return_def cached_movies_def uncached_def)
next
  case (Cons i ids)
  let ?w1 = "log (CacheGet (get_cache_key i)) w"
  have f: "\<not> is_cache_fault (fault ?w1)" using Cons.prems by (simp add: log_def)
  have c: "cache ?w1 = cache w" and t: "trace ?w1 = trace w @ [CacheGet (get_cache_key i)]"
    by (simp_all add: log_def)
  have cm: "cached_movies ?w1 ids = cached_movies w ids" and um: "uncached ?w1 ids = uncached w ids"
    by (simp_all add: cached_movies_def uncached_def c)
  show ?case
  proof (cases "cache w (get_cache_key i)")
    case None
    then show ?thesis
      using Cons.IH [OF f, of movies "unc @ [i]"] Cons.prems
      by (simp add: io_bind_def redis_get_ok cm um cached_movies_def uncached_def log_def)
  next
    case (Some a)
    obtain t d where a: "a = (t, d)" by (cases a)
    with Some show ?thesis
      using Cons.IH [OF f, of "movies @ [json_loads d]" unc] Cons.prems
      by (simp add: io_bind_def redis_get_ok cm um cached_movies_def uncached_def log_def)
  qed
qed

lemma cache_rows_ok:
  "\<not> is_cache_fault (fault w) \<Longrightarrow>
   cache_rows rs movies w =
     (Inr (movies @ map PyDict rs),
      w\<lparr>cache := foldl write_row (cache w) rs, trace := trace w @ map setex_event rs\<rparr>)"
proof (induction rs arbitrary: movies w)
  case Nil
  then show ?case by (simp add: io_return_def)
next
  case (Cons r rs)
  let ?w1 = "(log (setex_event r) w)\<lparr>cache := write_row (cache w) r\<rparr>"
  have f: "\<not> is_cache_fault (fault ?w1)" using Cons.prems by (simp add: log_def)
  show ?case
    using Cons.IH [OF f, of "movies @ [PyDict r]"] Cons.prems
    by (simp add: io_bind_def redis_setex_ok setex_event_def write_row_def log_def)
qed

lemma get_movies_batch_empty: "get_movies_batch [] w = (Inr [], w)"
  by (simp add: get_movies_batch_def io_return_def)

lemma get_movies_batch_all_hit:
  "fault w = NoFault \<Longrightarrow> ids \<noteq> [] \<Longrightarrow> uncached w ids = [] \<Longrightarrow>
   get_movies_batch ids w =
     (Inr (cached_movies w ids),
      w\<lparr>trace := trace w @ map (\<lambda>i. CacheGet (get_cache_key i)) ids\<rparr>)"
proof -
  assume nf: "fault w = NoFault" and ne: "ids \<noteq> []" and m: "uncached w ids = []"
  have p: "probe_cache ids [] [] w =
      (Inr (cached_movies w ids, uncached w ids),
       w\<lparr>trace := trace w @ map (\<lambda>i. CacheGet (get_cache_key i)) ids\<rparr>)"
    using nf probe_cache_ok [of w ids "[]" "[]"] by simp
  show ?thesis
    using ne m by (simp add: get_movies_batch_def io_bind_def p io_return_def)
qed

lemma get_movies_batch_miss:
  "fault w = NoFault \<Longrightarrow> uncached w ids \<noteq> [] \<Longrightarrow>
   get_movies_batch ids w =
     (Inr (cached_movies w ids @ map PyDict (fetched w ids)),
      w\<lparr>cache := foldl write_row (cache w) (fetched w ids),
        trace := trace w @ map (\<lambda>i. CacheGet (get_cache_key i)) ids
                 @ [Connect, Execute (SelectByIds (uncached w ids))]
                 @ map setex_event (fetched w ids) @ [Commit, Close]\<rparr>)"
proof -
  assume nf: "fault w = NoFault" and m: "uncached w ids \<noteq> []"
  then have ne: "ids \<noteq> []" by (auto simp: uncached_def)
  let ?w1 = "w\<lparr>trace := trace w @ map (\<lambda>i. CacheGet (get_cache_key i)) ids\<rparr>"
  let ?w2 = "log (Execute (SelectByIds (uncached w ids))) (log Connect ?w1)"
  have p: "probe_cache ids [] [] w = (Inr (cached_movies w ids, uncached w ids), ?w1)"
    using nf probe_cache_ok [of w ids "[]" "[]"] by simp
  have e: "execute (SelectByIds (uncached w ids)) (log Connect ?w1) = (Inr (fetched w ids), ?w2)"
    using nf by (simp add: execute_def log_def Let_def fetched_def)
  have f2: "\<not> is_cache_fault (fault ?w2)" using nf by (simp add: log_def)
  have c: "cache_rows (fetched w ids) (cached_movies w ids) ?w2 =
      (Inr (cached_movies w ids @ map PyDict (fetched w ids)),
       ?w2\<lparr>cache := foldl write_row (cache ?w2) (fetched w ids),
           trace := trace ?w2 @ map setex_event (fetched w ids)\<rparr>)"
    by (rule cache_rows_ok [OF f2])
  show ?thesis
    using nf m ne
    by (simp add: get_movies_batch_def io_bind_def p get_db_connection_def Let_def e c)
       (simp add: log_def)
qed

lemma get_cache_key_2: "get_cache_key 2 = ''movie:2''"
  by (simp add: get_cache_key_def str_int_def str_nat.simps digit_char_def)

lemma get_cache_key_3: "get_cache_key 3 = ''movie:3''"
  by (simp add: get_cache_key_def str_int_def str_nat.simps digit_char_def)

lemma foldl_write_row_other:
  "\<forall>r\<in>set rs. get_cache_key (md_id r) \<noteq> k \<Longrightarrow> foldl write_row c rs k = c k"
  by (induction rs arbitrary: c) (auto simp: write_row_def)

lemma foldl_write_row_lookup:
  "distinct (map md_id rs) \<Longrightarrow> r \<in> set rs \<Longrightarrow>
   foldl write_row c rs (get_cache_key (md_id r)) = Some (CACHE_TTL, json_dumps (PyDict r))"
proof (induction rs arbitrary: c)
  case Nil
  then show ?case by simp
next
  case (Cons a rs)
  show ?case
  proof (cases "r = a")
    case True
    have "\<forall>x\<in>set rs. get_cache_key (md_id x) \<noteq> get_cache_key (md_id r)"
      using Cons.prems(1) True by (auto simp: image_iff)
    then have "foldl write_row (write_row c a) rs (get_cache_key (md_id r)) =
        write_row c a (get_cache_key (md_id r))"
      by (rule foldl_write_row_other)
    moreover have "write_row c a (get_cache_key (md_id a)) =
        Some (CACHE_TTL, json_dumps (PyDict a))"
      by (simp add: write_row_def)
    ultimately show ?thesis using True by simp
  next
    case False
    with Cons.prems have "r \<in> set rs" "distinct (map md_id rs)" by auto
    then show ?thesis using Cons.IH by simp
  qed
qed

lemma distinct_fetched: "distinct (map md_id (rows w)) \<Longrightarrow> distinct (map md_id (fetched w ids))"
  by (simp add: fetched_def distinct_map_filter)

lemma length_fetched_le:
  assumes "distinct (map md_id (rows w))"
  shows "length (fetched w ids) \<le> length (uncached w ids)"
proof -
  have d: "distinct (map md_id (fetched w ids))" using assms by (rule distinct_fetched)
  have "set (map md_id (fetched w ids)) \<subseteq> set (uncached w ids)"
    by (auto simp: fetched_def)
  then have "card (set (map md_id (fetched w ids))) \<le> card (set (uncached w ids))"
    by (simp add: card_mono)
  also have "\<dots> \<le> length (uncached w ids)" by (rule card_length)
  finally show ?thesis using distinct_card [OF d] by simp
qed

lemma length_cached_uncached:
  "length (cached_movies w ids) + length (uncached w ids) = length ids"
  by (induction ids) (auto simp: cached_movies_def uncached_def split: option.splits)

lemma get_movies_batch_result:
  "fault w = NoFault \<Longrightarrow>
   fst (get_movies_batch ids w) = Inr (cached_movies w ids @ map PyDict (fetched w ids))"
proof -
  assume nf: "fault w = NoFault"
  show ?thesis
  proof (cases "ids = []")
    case True
    then show ?thesis
      by (simp add: get_movies_batch_empty cached_movies_def fetched_def uncached_def)
  next
    case ne: False
    show ?thesis
    proof (cases "uncached w ids = []")
      case True
      with nf ne show ?thesis by (simp add: get_movies_batch_all_hit fetched_def)
    next
      case False
      with nf show ?thesis by (simp add: get_movies_batch_miss)
    qed
  qed
qed

lemma get_movies_batch_cache:
  "fault w = NoFault \<Longrightarrow>
   cache (snd (get_movies_batch ids w)) = foldl write_row (cache w) (fetched w ids)"
proof -
  assume nf: "fault w = NoFault"
  show ?thesis
  proof (cases "ids = []")
    case True
    then show ?thesis
      by (simp add: get_movies_batch_empty cached_movies_def fetched_def uncached_def)
  next
    case ne: False
    show ?thesis
    proof (cases "uncached w ids = []")
      case True
      with nf ne show ?thesis by (simp add: get_movies_batch_all_hit fetched_def)
    next
      case False
      with nf show ?thesis by (simp add: get_movies_batch_miss)
    qed
  qed
qed

lemma get_movies_batch_store_events:
  "fault w = NoFault \<Longrightarrow>
   filter (\<lambda>e. \<not> is_cache_event e) (new_events w (snd (get_movies_batch ids w))) =
     (if uncached w ids = [] then []
      else [Connect, Execute (SelectByIds (uncached w ids)), Commit, Close])"
proof -
  assume nf: "fault w = NoFault"
  have g: "filter (\<lambda>e. \<not> is_cache_event e) (map (\<lambda>i. CacheGet (get_cache_key i)) ids) = []"
    by (induction ids) simp_all
  have s: "\<And>rs. filter (\<lambda>e. \<not> is_cache_event e) (map setex_event rs) = []"
    subgoal for rs by (induction rs) (simp_all add: setex_event_def)
    done
  show ?thesis
  proof (cases "ids = []")
    case True
    then show ?thesis
      by (simp add: get_movies_batch_empty new_events_def uncached_def)
  next
    case ne: False
    show ?thesis
    proof (cases "uncached w ids = []")
      case True
      with nf ne show ?thesis by (simp add: get_movies_batch_all_hit new_events_def g)
    next
      case False
      with nf show ?thesis by (simp add: get_movies_batch_miss new_events_def g s)
    qed
  qed
qed

lemma w_two_simps:
  "fault w_two = NoFault"
  "rows w_two = [inception_row, row_of 2 inception_rerated]"
  "cache w_two = [''movie:1'' \<mapsto> (3600, json_dumps (PyDict inception_row))]"
  "trace w_two = []"
  by (simp_all add: w_two_def w_cached_def w_stored_def w0_def)

lemma w_two_batch:
  "cached_movies w_two [1, 2, 3] = [json_loads (json_dumps (PyDict inception_row))]"
  "uncached w_two [1, 2, 3] = [2, 3]"
  "fetched w_two [1, 2, 3] = [row_of 2 inception_rerated]"
  "cached_movies w_two [1] = [json_loads (json_dumps (PyDict inception_row))]"
  "uncached w_two [1] = []"
  by (simp_all add: cached_movies_def uncached_def fetched_def w_two_simps get_cache_key_1
      get_cache_key_2 get_cache_key_3 inception_row_def row_of_def)

lemma count_cached_movies:
  "keyed_by_id w ids \<Longrightarrow>
   length (filter (\<lambda>v. pyval_id v = Some j) (cached_movies w ids)) =
     (if cache w (get_cache_key j) = None then 0 else count_list ids j)"
proof (induction ids)
  case Nil
  then show ?case by (simp add: cached_movies_def)
next
  case (Cons i ids)
  then have k: "keyed_by_id w ids" by (simp add: keyed_by_id_def)
  have c: "cached_movies w (i # ids) =
      (case cache w (get_cache_key i) of None \<Rightarrow> [] | Some (t, d) \<Rightarrow> [json_loads d])
      @ cached_movies w ids"
    by (simp add: cached_movies_def)
  show ?case
  proof (cases "cache w (get_cache_key i)")
    case None
    with Cons.IH [OF k] c show ?thesis by auto
  next
    case (Some a)
    obtain t d where a: "a = (t, d)" by (cases a)
    from Cons.prems Some a have "pyval_id (json_loads d) = Some i"
      by (simp add: keyed_by_id_def)
    with Cons.IH [OF k] c Some a show ?thesis by auto
  qed
qed

lemma count_distinct_id:
  "distinct (map md_id rs) \<Longrightarrow>
   length (filter (\<lambda>r. md_id r = j) rs) = (if j \<in> md_id ` set rs then 1 else 0)"
  by (induction rs) (auto simp: image_iff)

lemma filter_id_map_PyDict:
  "filter (\<lambda>v. pyval_id v = Some j) (map PyDict rs) = map PyDict (filter (\<lambda>r. md_id r = j) rs)"
  by (induction rs) simp_all

lemma fetched_ids:
  "j \<in> md_id ` set (fetched w ids) \<longleftrightarrow>
   j \<in> set ids \<and> cache w (get_cache_key j) = None \<and> j \<in> md_id ` set (rows w)"
  by (auto simp: fetched_def uncached_def)

section \<open>The cached document loses nothing\<close>

lemma response_round_trip:
  "response_model_Movie (json_loads (json_dumps (PyDict m))) = response_model_Movie (PyDict m)"
  by (cases "md_rating m") (simp_all add: dumps_object_def loads_object_def)

lemma all_digits_str_nat: "set (str_nat n) \<subseteq> set ''0123456789''"
proof (induction n rule: str_nat.induct)
  case (1 n)
  have d: "digit_char k \<in> set ''0123456789''" if "k < 10" for k
    unfolding digit_char_def using that by (intro nth_mem) simp
  show ?case
  proof (cases "n < 10")
    case True
    then show ?thesis using d [of n] by (simp add: str_nat.simps [of n])
  next
    case False
    then show ?thesis using 1 d [of "n mod 10"] by (simp add: str_nat.simps [of n])
  qed
qed

lemma split_at_unique:
  "c \<notin> set xs \<Longrightarrow> c \<notin> set xs' \<Longrightarrow> xs @ c # ys = xs' @ c # ys' \<Longrightarrow> xs = xs' \<and> ys = ys'"
proof (induction xs arbitrary: xs')
  case Nil
  then show ?case by (cases xs') auto
next
  case (Cons a xs)
  then show ?case by (cases xs') auto
qed

lemma str_decimal_inj: "str_decimal a = str_decimal b \<Longrightarrow> a = b"
proof -
  assume eq: "str_decimal a = str_decimal b"
  have nodot: "\<And>n. CHR ''.'' \<notin> set (str_nat n)"
    using all_digits_str_nat by fastforce
  have abs_eq: "\<And>x y. str_nat (nat \<bar>x\<bar> div 10) @ CHR ''.'' # str_nat (nat \<bar>x\<bar> mod 10) =
                      str_nat (nat \<bar>y\<bar> div 10) @ CHR ''.'' # str_nat (nat \<bar>y\<bar> mod 10)
                      \<Longrightarrow> \<bar>x\<bar> = \<bar>y\<bar>" for x y :: int
  proof -
    fix x y :: int
    assume "str_nat (nat \<bar>x\<bar> div 10) @ CHR ''.'' # str_nat (nat \<bar>x\<bar> mod 10) =
            str_nat (nat \<bar>y\<bar> div 10) @ CHR ''.'' # str_nat (nat \<bar>y\<bar> mod 10)"
    then have "str_nat (nat \<bar>x\<bar> div 10) = str_nat (nat \<bar>y\<bar> div 10)
             \<and> str_nat (nat \<bar>x\<bar> mod 10) = str_nat (nat \<bar>y\<bar> mod 10)"
      by (rule split_at_unique [OF nodot nodot])
    then have "nat \<bar>x\<bar> div 10 = nat \<bar>y\<bar> div 10" "nat \<bar>x\<bar> mod 10 = nat \<bar>y\<bar> mod 10"
      by (auto dest: str_nat_inj)
    then have "nat \<bar>x\<bar> = nat \<bar>y\<bar>" by (metis div_mult_mod_eq)
    then show "\<bar>x\<bar> = \<bar>y\<bar>" by simp
  qed
  obtain c cs where a: "str_nat (nat \<bar>a\<bar> div 10) = c # cs" "c \<noteq> CHR ''-''"
    using hd_str_nat by blast
  obtain d ds where b: "str_nat (nat \<bar>b\<bar> div 10) = d # ds" "d \<noteq> CHR ''-''"
    using hd_str_nat by blast
  show ?thesis
  proof (cases "a < 0")
    case an: True
    show ?thesis
    proof (cases "b < 0")
      case True
      with an eq have "\<bar>a\<bar> = \<bar>b\<bar>" by (intro abs_eq) (simp add: str_decimal_def)
      with an True show ?thesis by simp
    next
      case False
      with an eq b show ?thesis by (simp add: str_decimal_def)
    qed
  next
    case ap: False
    show ?thesis
    proof (cases "b < 0")
      case True
      with ap eq a show ?thesis by (simp add: str_decimal_def)
    next
      case False
      with ap eq have "\<bar>a\<bar> = \<bar>b\<bar>" by (intro abs_eq) (simp add: str_decimal_def)
      with ap False show ?thesis by simp
    qed
  qed
qed

lemma dumps_row_of_inj: "dumps_object (row_of i m) = dumps_object (row_of i' m') \<Longrightarrow> i = i' \<and> m = m'"
  by (cases m; cases m')
     (auto simp: dumps_object_def row_of_def split: option.splits dest: str_decimal_inj)

lemma get_movie_hit:
  "fault w = NoFault \<Longrightarrow> cache w (get_cache_key i) = Some (ttl, d) \<Longrightarrow>
   get_movie i w = (Inr (json_loads d), w\<lparr>trace := trace w @ [CacheGet (get_cache_key i)]\<rparr>)"
  by (simp add: get_movie_def io_bind_def io_return_def redis_get_ok log_def)

lemma str_decimal_88: "str_decimal 88 = ''8.8''"
  by (simp add: str_decimal_def str_nat.simps digit_char_def)

section \<open>Consistency of the cache with the store\<close>

lemma find_distinct_id:
  "distinct (map md_id rs) \<Longrightarrow> r \<in> set rs \<Longrightarrow> find (\<lambda>x. md_id x = md_id r) rs = Some r"
  by (induction rs) (auto simp: image_iff)

lemma find_id_Some: "find (\<lambda>x. md_id x = i) rs = Some r \<Longrightarrow> r \<in> set rs \<and> md_id r = i"
  by (induction rs) (auto split: if_splits)

lemma find_id_None: "find (\<lambda>x. md_id x = i) rs = None \<longleftrightarrow> i \<notin> md_id ` set rs"
  by (induction rs) auto

lemma find_append_cases:
  "find P (xs @ ys) = (case find P xs of None \<Rightarrow> find P ys | Some x \<Rightarrow> Some x)"
  by (induction xs) auto

lemma coh_del: "coherent rs n c \<Longrightarrow> coherent rs n (c(k := None))"
  by (auto simp: coherent_def entry_fresh_def collection_fresh_def)

lemma coh_next: "coherent rs n c \<Longrightarrow> n \<le> n' \<Longrightarrow> coherent rs n' c"
  by (fastforce simp: coherent_def)

lemma coh_write_row:
  assumes "coherent rs n c" and "r \<in> set rs"
  shows "coherent rs n (write_row c r)"
proof -
  from assms have f: "find (\<lambda>x. md_id x = md_id r) rs = Some r"
    by (simp add: coherent_def find_distinct_id)
  have e: "entry_fresh rs (write_row c r) i" for i
  proof (cases "i = md_id r")
    case True
    then show ?thesis using f by (simp add: entry_fresh_def write_row_def)
  next
    case False
    moreover from assms(1) have "entry_fresh rs c i" by (simp add: coherent_def)
    ultimately show ?thesis by (simp add: entry_fresh_def write_row_def)
  qed
  from assms(1) have "collection_fresh rs (write_row c r)"
    by (simp add: coherent_def collection_fresh_def write_row_def)
  with e assms(1) show ?thesis by (simp add: coherent_def)
qed

lemma coh_write_get:
  "coherent rs n c \<Longrightarrow> find (\<lambda>r. md_id r = i) rs = Some r \<Longrightarrow>
   coherent rs n (c(get_cache_key i \<mapsto> (CACHE_TTL, json_dumps (PyDict r))))"
  using coh_write_row [of rs n c r] find_id_Some [of i rs r] by (simp add: write_row_def)

lemma coh_foldl_write:
  "coherent rs n c \<Longrightarrow> set rs' \<subseteq> set rs \<Longrightarrow> coherent rs n (foldl write_row c rs')"
  by (induction rs' arbitrary: c) (simp_all add: coh_write_row)

lemma coh_write_all:
  "coherent rs n c \<Longrightarrow>
   coherent rs n (c(get_all_movies_cache_key \<mapsto> (CACHE_TTL, json_dumps (PyList rs))))"
  by (auto simp: coherent_def entry_fresh_def collection_fresh_def)

lemma md_id_row_of [simp]: "md_id (row_of i m) = i"
  by (simp add: row_of_def)

lemma coh_insert:
  assumes "coherent rs n c"
  shows "coherent (rs @ [row_of n m]) (n + 1)
           (c(get_cache_key n \<mapsto> (CACHE_TTL, json_dumps (PyDict (row_of n m))),
              get_all_movies_cache_key := None))"
proof -
  let ?c = "c(get_cache_key n \<mapsto> (CACHE_TTL, json_dumps (PyDict (row_of n m))),
              get_all_movies_cache_key := None)"
  from assms have d: "distinct (map md_id rs)" and b: "\<forall>r\<in>set rs. md_id r < n"
    and e: "\<And>i. entry_fresh rs c i"
    by (simp_all add: coherent_def)
  from b have nn: "n \<notin> md_id ` set rs" by auto
  then have fn: "find (\<lambda>r. md_id r = n) rs = None" by (simp add: find_id_None)
  have e': "entry_fresh (rs @ [row_of n m]) ?c i" for i
  proof (cases "i = n")
    case True
    then show ?thesis using fn by (simp add: entry_fresh_def find_append_cases)
  next
    case False
    with e [of i] show ?thesis
      by (auto simp: entry_fresh_def find_append_cases split: option.splits)
  qed
  have "distinct (map md_id (rs @ [row_of n m]))" using d nn by simp
  moreover have "\<forall>r\<in>set (rs @ [row_of n m]). md_id r < n + 1" using b by auto
  moreover have "collection_fresh (rs @ [row_of n m]) ?c" by (simp add: collection_fresh_def)
  ultimately show ?thesis using e' by (simp add: coherent_def)
qed

lemma find_map_update:
  "find (\<lambda>r. md_id r = j) (map (\<lambda>r. if md_id r = i then row_of i m else r) rs) =
     map_option (\<lambda>r. if md_id r = i then row_of i m else r) (find (\<lambda>r. md_id r = j) rs)"
  by (induction rs) auto

lemma coh_update:
  assumes "coherent rs n c" and "find (\<lambda>r. md_id r = i) rs \<noteq> None"
  shows "coherent (map (\<lambda>r. if md_id r = i then row_of i m else r) rs) n
           (c(get_cache_key i \<mapsto> (CACHE_TTL, json_dumps (PyDict (row_of i m))),
              get_all_movies_cache_key := None))"
proof -
  let ?rs = "map (\<lambda>r. if md_id r = i then row_of i m else r) rs"
  let ?c = "c(get_cache_key i \<mapsto> (CACHE_TTL, json_dumps (PyDict (row_of i m))),
              get_all_movies_cache_key := None)"
  have ids: "map md_id ?rs = map md_id rs" by (induction rs) auto
  from assms(1) have e: "\<And>j. entry_fresh rs c j" by (simp add: coherent_def)
  have e': "entry_fresh ?rs ?c j" for j
  proof (cases "j = i")
    case True
    from assms(2) obtain r where r: "find (\<lambda>r. md_id r = i) rs = Some r" by blast
    then have "md_id r = i" by (blast dest: find_id_Some)
    with True r show ?thesis by (simp add: entry_fresh_def find_map_update)
  next
    case False
    with e [of j] show ?thesis
      by (auto simp: entry_fresh_def find_map_update split: option.splits dest: find_id_Some)
  qed
  have b: "\<forall>r\<in>set ?rs. md_id r < n"
    using assms(1) by (auto simp: coherent_def)
  have d: "distinct (map md_id ?rs)"
    unfolding ids using assms(1) by (simp add: coherent_def)
  have cf: "collection_fresh ?rs ?c" by (simp add: collection_fresh_def)
  show ?thesis
    unfolding coherent_def using d b e' cf by blast
qed

lemma find_filter_other:
  "j \<noteq> i \<Longrightarrow> find (\<lambda>r. md_id r = j) (filter (\<lambda>r. md_id r \<noteq> i) rs) = find (\<lambda>r. md_id r = j) rs"
  by (induction rs) auto

lemma coh_delete:
  assumes "coherent rs n c"
  shows "coherent (filter (\<lambda>r. md_id r \<noteq> i) rs) n
           (c(get_cache_key i := None, get_all_movies_cache_key := None))"
proof -
  let ?c = "c(get_cache_key i := None, get_all_movies_cache_key := None)"
  from assms have e: "\<And>j. entry_fresh rs c j" by (simp add: coherent_def)
  have e': "entry_fresh (filter (\<lambda>r. md_id r \<noteq> i) rs) ?c j" for j
  proof (cases "j = i")
    case True
    then show ?thesis by (simp add: entry_fresh_def)
  next
    case False
    with e [of j] show ?thesis
      by (auto simp: entry_fresh_def find_filter_other split: option.splits)
  qed
  have "collection_fresh (filter (\<lambda>r. md_id r \<noteq> i) rs) ?c" by (simp add: collection_fresh_def)
  with e' assms show ?thesis by (simp add: coherent_def distinct_map_filter)
qed

lemma get_movie_consistent: "consistent w \<Longrightarrow> consistent (snd (get_movie i w))"
  apply (cases "fault w")
      apply (auto simp: consistent_def get_movie_def io_defs redis_get_def redis_setex_def
        cache_call_def simp del: json_dumps.simps intro: coh_write_get
        split: option.splits nat.splits)
  done

lemma get_movies_consistent: "consistent w \<Longrightarrow> consistent (snd (get_movies g w))"
  apply (cases "fault w")
      apply (auto simp: consistent_def get_movies_def io_defs redis_get_def redis_setex_def
        cache_call_def simp del: json_dumps.simps intro: coh_write_all
        split: option.splits nat.splits)
  done

lemma delete_movie_consistent: "consistent w \<Longrightarrow> consistent (snd (delete_movie i w))"
  apply (cases "fault w")
      apply (auto simp: consistent_def delete_movie_def io_defs redis_delete_def
        cache_call_def coh_del coh_delete split: option.splits nat.splits)
  done

lemma create_movie_consistent:
  "consistent w \<Longrightarrow> fault w \<noteq> CommitFails \<Longrightarrow> fault w \<noteq> CacheFails 1 \<Longrightarrow>
   consistent (snd (create_movie m w))"
  apply (cases "fault w")
      apply (auto simp: consistent_def create_movie_def io_defs redis_delete_def redis_setex_def
        cache_call_def fetchone_def simp del: json_dumps.simps
        intro: coh_insert coh_next split: option.splits nat.splits)
  done

lemma update_movie_consistent:
  "consistent w \<Longrightarrow> fault w \<noteq> CommitFails \<Longrightarrow> fault w \<noteq> CacheFails 1 \<Longrightarrow>
   consistent (snd (update_movie i m w))"
  apply (cases "fault w")
      apply (auto simp: consistent_def update_movie_def io_defs redis_delete_def redis_setex_def
        cache_call_def simp del: json_dumps.simps
        intro: coh_update split: option.splits nat.splits)
  done

lemma probe_cache_frame:
  "rows (snd (probe_cache ids ms us w)) = rows w
 \<and> next_id (snd (probe_cache ids ms us w)) = next_id w
 \<and> cache (snd (probe_cache ids ms us w)) = cache w"
proof (induction ids arbitrary: ms us w)
  case Nil
  then show ?case by (simp add: io_return_def)
next
  case (Cons i ids)
  show ?case
  proof (cases "redis_get (get_cache_key i) w")
    case (Pair res w1)
    then have core: "rows w1 = rows w \<and> next_id w1 = next_id w \<and> cache w1 = cache w"
      by (cases "fault w")
         (auto simp: redis_get_def cache_call_def log_def split: nat.splits)
    show ?thesis
    proof (cases res)
      case (Inl e)
      with Pair core show ?thesis by (simp add: io_bind_def)
    next
      case (Inr v)
      show ?thesis
      proof (cases v)
        case None
        with Pair Inr core Cons.IH [of ms "us @ [i]" w1] show ?thesis by (simp add: io_bind_def)
      next
        case (Some d)
        with Pair Inr core Cons.IH [of "ms @ [json_loads d]" us w1] show ?thesis
          by (simp add: io_bind_def)
      qed
    qed
  qed
qed

lemma cache_rows_frame:
  "rows (snd (cache_rows rs ms w)) = rows w
 \<and> next_id (snd (cache_rows rs ms w)) = next_id w
 \<and> (\<exists>k. cache (snd (cache_rows rs ms w)) = foldl write_row (cache w) (take k rs))"
proof (induction rs arbitrary: ms w)
  case Nil
  then show ?case by (simp add: io_return_def)
next
  case (Cons r rs)
  show ?case
  proof (cases "redis_setex (get_cache_key (md_id r)) CACHE_TTL (json_dumps (PyDict r)) w")
    case (Pair res w1)
    then have core: "rows w1 = rows w \<and> next_id w1 = next_id w"
      and c: "(\<exists>e. res = Inl e \<and> cache w1 = cache w) \<or> (res = Inr () \<and> cache w1 = write_row (cache w) r)"
      by (cases "fault w";
          auto simp: redis_setex_def cache_call_def log_def write_row_def split: nat.splits)+
    from c show ?thesis
    proof
      assume "\<exists>e. res = Inl e \<and> cache w1 = cache w"
      then obtain e where "res = Inl e" "cache w1 = cache w" by blast
      with Pair core have "rows (snd (cache_rows (r # rs) ms w)) = rows w"
        "next_id (snd (cache_rows (r # rs) ms w)) = next_id w"
        "cache (snd (cache_rows (r # rs) ms w)) = foldl write_row (cache w) (take 0 (r # rs))"
        by (simp_all add: io_bind_def)
      then show ?thesis by blast
    next
      assume a: "res = Inr () \<and> cache w1 = write_row (cache w) r"
      from Cons.IH [of "ms @ [PyDict r]" w1] obtain k where
        k: "cache (snd (cache_rows rs (ms @ [PyDict r]) w1)) = foldl write_row (cache w1) (take k rs)"
        and r1: "rows (snd (cache_rows rs (ms @ [PyDict r]) w1)) = rows w1"
        and n1: "next_id (snd (cache_rows rs (ms @ [PyDict r]) w1)) = next_id w1"
        by blast
      from Pair a core r1 n1 k have "rows (snd (cache_rows (r # rs) ms w)) = rows w"
        "next_id (snd (cache_rows (r # rs) ms w)) = next_id w"
        "cache (snd (cache_rows (r # rs) ms w)) = foldl write_row (cache w) (take (Suc k) (r # rs))"
        by (simp_all add: io_bind_def)
      then show ?thesis by blast
    qed
  qed
qed

lemma cache_rows_consistent:
  "consistent w \<Longrightarrow> set rs \<subseteq> set (rows w) \<Longrightarrow> consistent (snd (cache_rows rs ms w))"
proof -
  assume c: "consistent w" and s: "set rs \<subseteq> set (rows w)"
  from cache_rows_frame [of rs ms w] obtain k where
    k: "cache (snd (cache_rows rs ms w)) = foldl write_row (cache w) (take k rs)"
    and r: "rows (snd (cache_rows rs ms w)) = rows w"
    and n: "next_id (snd (cache_rows rs ms w)) = next_id w"
    by blast
  have "set (take k rs) \<subseteq> set (rows w)" using s set_take_subset [of k rs] by blast
  with c show ?thesis by (simp add: consistent_def k r n coh_foldl_write)
qed

lemma batch_body_consistent:
  "consistent w \<Longrightarrow>
   consistent (snd (io_bind (execute (SelectByIds us)) (\<lambda>results. cache_rows results ms) w))
 \<and> rows (snd (io_bind (execute (SelectByIds us)) (\<lambda>results. cache_rows results ms) w)) = rows w"
proof -
  assume c: "consistent w"
  let ?w1 = "log (Execute (SelectByIds us)) w"
  have c1: "consistent ?w1" using c by (simp add: consistent_def log_def)
  have r1: "rows ?w1 = rows w" by (simp add: log_def)
  show ?thesis
  proof (cases "fault w = ExecuteFails")
    case True
    then show ?thesis using c by (simp add: io_bind_def execute_def log_def Let_def consistent_def)
  next
    case False
    then have e: "io_bind (execute (SelectByIds us)) (\<lambda>results. cache_rows results ms) w =
        cache_rows (filter (\<lambda>r. md_id r \<in> set us) (rows w)) ms ?w1"
      by (simp add: io_bind_def execute_def log_def Let_def)
    have "set (filter (\<lambda>r. md_id r \<in> set us) (rows w)) \<subseteq> set (rows ?w1)"
      by (auto simp: log_def)
    from cache_rows_consistent [OF c1 this]
         cache_rows_frame [of "filter (\<lambda>r. md_id r \<in> set us) (rows w)" ms ?w1] r1
    show ?thesis by (simp add: e)
  qed
qed

lemma get_db_connection_read_consistent:
  assumes "consistent w"
    and "\<And>w. consistent w \<Longrightarrow> consistent (snd (body w)) \<and> rows (snd (body w)) = rows w"
  shows "consistent (snd (get_db_connection body w))"
proof -
  let ?w0 = "log Connect w"
  have c0: "consistent ?w0" using assms(1) by (simp add: consistent_def log_def)
  from assms(2) [OF c0] have cb: "consistent (snd (body ?w0))"
    and rb: "rows (snd (body ?w0)) = rows w" by (simp_all add: log_def)
  show ?thesis
  proof (cases "body ?w0")
    case (Pair res w1)
    with cb rb have "consistent w1" "rows w1 = rows w" by simp_all
    with Pair assms(1) show ?thesis
      by (cases res) (auto simp: get_db_connection_def Let_def log_def consistent_def)
  qed
qed

lemma get_movies_batch_consistent:
  "consistent w \<Longrightarrow> consistent (snd (get_movies_batch ids w))"
proof -
  assume c: "consistent w"
  show ?thesis
  proof (cases "ids = []")
    case True
    with c show ?thesis by (simp add: get_movies_batch_empty)
  next
    case False
    obtain res w1 where p: "probe_cache ids [] [] w = (res, w1)" by (cases "probe_cache ids [] [] w")
    with probe_cache_frame [of ids "[]" "[]" w] c have c1: "consistent w1"
      by (simp add: consistent_def)
    show ?thesis
    proof (cases res)
      case (Inl e)
      with p c1 False show ?thesis by (simp add: get_movies_batch_def io_bind_def)
    next
      case (Inr v)
      obtain ms us where v: "v = (ms, us)" by (cases v)
      show ?thesis
      proof (cases "us = []")
        case True
        with p Inr v c1 False show ?thesis
          by (simp add: get_movies_batch_def io_bind_def io_return_def)
      next
        case ne: False
        have "consistent (snd (get_db_connection
                (io_bind (execute (SelectByIds us)) (\<lambda>results. cache_rows results ms)) w1))"
          by (rule get_db_connection_read_consistent [OF c1]) (rule batch_body_consistent)
        with p Inr v ne False show ?thesis
          by (simp add: get_movies_batch_def io_bind_def)
      qed
    qed
  qed
qed

lemma run_op_consistent:
  "consistent w \<Longrightarrow> \<not> harmful p f \<Longrightarrow> consistent (run_op p (w\<lparr>fault := f\<rparr>))"
proof -
  assume c: "consistent w" and h: "\<not> harmful p f"
  have cf: "consistent (w\<lparr>fault := f\<rparr>)" using c by (simp add: consistent_def)
  show ?thesis
  proof (cases p)
    case (OpGet i) then show ?thesis using cf by (simp add: get_movie_consistent)
  next
    case (OpGetBatch ids) then show ?thesis using cf by (simp add: get_movies_batch_consistent)
  next
    case (OpGetMovies g) then show ?thesis using cf by (simp add: get_movies_consistent)
  next
    case (OpCreate m) then show ?thesis using cf h by (simp add: create_movie_consistent)
  next
    case (OpUpdate i m) then show ?thesis using cf h by (simp add: update_movie_consistent)
  next
    case (OpDelete i) then show ?thesis using cf by (simp add: delete_movie_consistent)
  next
    case (OpExpire k) then show ?thesis using c by (simp add: consistent_def coh_del)
  qed
qed

lemma run_consistent:
  "consistent w \<Longrightarrow> list_all (\<lambda>(p, f). \<not> harmful p f) ops \<Longrightarrow> consistent (run ops w)"
proof (induction ops arbitrary: w)
  case Nil
  then show ?case by simp
next
  case (Cons s ops)
  obtain p f where s: "s = (p, f)" by (cases s)
  with Cons.prems have "\<not> harmful p f" "list_all (\<lambda>(p, f). \<not> harmful p f) ops" by simp_all
  with Cons.prems(1) Cons.IH s show ?case by (simp add: run_op_consistent)
qed

lemma cf_del: "collection_fresh rs c \<Longrightarrow> collection_fresh rs (c(k := None))"
  by (simp add: collection_fresh_def)

lemma cf_del_all: "collection_fresh rs (c(get_all_movies_cache_key := None))"
  by (simp add: collection_fresh_def)

lemma cf_write_key:
  "collection_fresh rs c \<Longrightarrow> collection_fresh rs (c(get_cache_key i \<mapsto> e))"
  by (simp add: collection_fresh_def)

lemma cf_write_all:
  "collection_fresh rs (c(get_all_movies_cache_key \<mapsto> (CACHE_TTL, json_dumps (PyList rs))))"
  by (simp add: collection_fresh_def)

lemma cf_foldl_write:
  "collection_fresh rs c \<Longrightarrow> collection_fresh rs (foldl write_row c rs')"
  by (simp add: collection_fresh_def foldl_write_row_other)

lemma get_movie_collection: "collection_ok w \<Longrightarrow> collection_ok (snd (get_movie i w))"
  apply (cases "fault w")
      apply (auto simp: collection_ok_def get_movie_def io_defs redis_get_def redis_setex_def
        cache_call_def simp del: json_dumps.simps intro: cf_write_key
        split: option.splits nat.splits)
  done

lemma get_movies_collection: "collection_ok w \<Longrightarrow> collection_ok (snd (get_movies g w))"
  apply (cases "fault w")
      apply (auto simp: collection_ok_def get_movies_def io_defs redis_get_def redis_setex_def
        cache_call_def simp del: json_dumps.simps intro: cf_write_all
        split: option.splits nat.splits)
  done

lemma delete_movie_collection: "collection_ok w \<Longrightarrow> collection_ok (snd (delete_movie i w))"
  apply (cases "fault w")
      apply (auto simp: collection_ok_def delete_movie_def io_defs redis_delete_def
        cache_call_def intro: cf_del cf_del_all split: option.splits nat.splits)
  done

lemma create_movie_collection: "collection_ok w \<Longrightarrow> collection_ok (snd (create_movie m w))"
  apply (cases "fault w")
      apply (auto simp: collection_ok_def create_movie_def io_defs redis_delete_def redis_setex_def
        cache_call_def fetchone_def simp del: json_dumps.simps
        intro: cf_del cf_del_all cf_write_key split: option.splits nat.splits)
  done

lemma update_movie_collection: "collection_ok w \<Longrightarrow> collection_ok (snd (update_movie i m w))"
  apply (cases "fault w")
      apply (auto simp: collection_ok_def update_movie_def io_defs redis_delete_def redis_setex_def
        cache_call_def simp del: json_dumps.simps
        intro: cf_del cf_del_all cf_write_key split: option.splits nat.splits)
  done

lemma batch_body_collection:
  "collection_ok w \<Longrightarrow>
   collection_ok (snd (io_bind (execute (SelectByIds us)) (\<lambda>results. cache_rows results ms) w))
 \<and> rows (snd (io_bind (execute (SelectByIds us)) (\<lambda>results. cache_rows results ms) w)) = rows w"
proof -
  assume c: "collection_ok w"
  let ?w1 = "log (Execute (SelectByIds us)) w"
  show ?thesis
  proof (cases "fault w = ExecuteFails")
    case True
    then show ?thesis using c by (simp add: io_bind_def execute_def log_def Let_def collection_ok_def)
  next
    case False
    then have e: "io_bind (execute (SelectByIds us)) (\<lambda>results. cache_rows results ms) w =
        cache_rows (filter (\<lambda>r. md_id r \<in> set us) (rows w)) ms ?w1"
      by (simp add: io_bind_def execute_def log_def Let_def)
    from cache_rows_frame [of "filter (\<lambda>r. md_id r \<in> set us) (rows w)" ms ?w1] c
    show ?thesis by (auto simp: e collection_ok_def log_def cf_foldl_write)
  qed
qed

lemma get_db_connection_read_collection:
  assumes "collection_ok w"
    and "\<And>w. collection_ok w \<Longrightarrow> collection_ok (snd (body w)) \<and> rows (snd (body w)) = rows w"
  shows "collection_ok (snd (get_db_connection body w))"
proof -
  let ?w0 = "log Connect w"
  have c0: "collection_ok ?w0" using assms(1) by (simp add: collection_ok_def log_def)
  from assms(2) [OF c0] have cb: "collection_ok (snd (body ?w0))"
    and rb: "rows (snd (body ?w0)) = rows w" by (simp_all add: log_def)
  show ?thesis
  proof (cases "body ?w0")
    case (Pair res w1)
    with cb rb have "collection_ok w1" "rows w1 = rows w" by simp_all
    with Pair assms(1) show ?thesis
      by (cases res) (auto simp: get_db_connection_def Let_def log_def collection_ok_def)
  qed
qed

lemma get_movies_batch_collection:
  "collection_ok w \<Longrightarrow> collection_ok (snd (get_movies_batch ids w))"
proof -
  assume c: "collection_ok w"
  show ?thesis
  proof (cases "ids = []")
    case True
    with c show ?thesis by (simp add: get_movies_batch_empty)
  next
    case False
    obtain res w1 where p: "probe_cache ids [] [] w = (res, w1)" by (cases "probe_cache ids [] [] w")
    with probe_cache_frame [of ids "[]" "[]" w] c have c1: "collection_ok w1"
      by (simp add: collection_ok_def)
    show ?thesis
    proof (cases res)
      case (Inl e)
      with p c1 False show ?thesis by (simp add: get_movies_batch_def io_bind_def)
    next
      case (Inr v)
      obtain ms us where v: "v = (ms, us)" by (cases v)
      show ?thesis
      proof (cases "us = []")
        case True
        with p Inr v c1 False show ?thesis
          by (simp add: get_movies_batch_def io_bind_def io_return_def)
      next
        case ne: False
        have "collection_ok (snd (get_db_connection
                (io_bind (execute (SelectByIds us)) (\<lambda>results. cache_rows results ms)) w1))"
          by (rule get_db_connection_read_collection [OF c1]) (rule batch_body_collection)
        with p Inr v ne False show ?thesis
          by (simp add: get_movies_batch_def io_bind_def)
      qed
    qed
  qed
qed

lemma run_op_collection: "collection_ok w \<Longrightarrow> collection_ok (run_op p (w\<lparr>fault := f\<rparr>))"
proof -
  assume c: "collection_ok w"
  have cf: "collection_ok (w\<lparr>fault := f\<rparr>)" using c by (simp add: collection_ok_def)
  show ?thesis
  proof (cases p)
    case (OpGet i) then show ?thesis using cf by (simp add: get_movie_collection)
  next
    case (OpGetBatch ids) then show ?thesis using cf by (simp add: get_movies_batch_collection)
  next
    case (OpGetMovies g) then show ?thesis using cf by (simp add: get_movies_collection)
  next
    case (OpCreate m) then show ?thesis using cf by (simp add: create_movie_collection)
  next
    case (OpUpdate i m) then show ?thesis using cf by (simp add: update_movie_collection)
  next
    case (OpDelete i) then show ?thesis using cf by (simp add: delete_movie_collection)
  next
    case (OpExpire k) then show ?thesis using c by (simp add: collection_ok_def cf_del)
  qed
qed

lemma run_collection: "collection_ok w \<Longrightarrow> collection_ok (run ops w)"
proof (induction ops arbitrary: w)
  case Nil
  then show ?case by simp
next
  case (Cons s ops)
  obtain p f where s: "s = (p, f)" by (cases s)
  with Cons show ?case by (simp add: run_op_collection)
qed

lemma consistent_w0: "consistent w0"
  by (simp add: consistent_def coherent_def entry_fresh_def collection_fresh_def w0_def)

lemma run_ops_example:
  "rows (run ops_example w0) = [inception_row]"
  "cache (run ops_example w0) =
     [''movie:1'' \<mapsto> (3600, json_dumps (PyDict inception_row)),
      ''movies:all'' \<mapsto> (3600, json_dumps (PyList [inception_row]))]"
  by (simp_all add: ops_example_def w0_def create_movie_ok update_movie_execute_fails
      get_movies_all_miss get_cache_key_1 CACHE_TTL_def get_all_movies_cache_key_def
      inception_row_def fun_upd_idem del: json_dumps.simps)

lemma run_create_commit_fails:
  "run [(OpCreate inception, CommitFails)] w0 =
     w0\<lparr>next_id := 2,
        cache := [''movie:1'' \<mapsto> (3600, json_dumps (PyDict inception_row))],
        trace := [Connect, Execute (Insert inception),
                  CacheSetex ''movie:1'' 3600 (json_dumps (PyDict inception_row)),
                  CacheDelete ''movies:all'', Commit, Rollback, Close]\<rparr>"
  by (simp add: create_movie_def io_defs redis_setex_ok redis_delete_ok fetchone_def w0_def
      get_cache_key_1 CACHE_TTL_def get_all_movies_cache_key_def inception_row_def row_of_def
      fun_upd_idem)

text \<open>
  In a consistent state the ids of the table are unique and the cached documents carry the
  id of their key.
\<close>

lemma consistent_keyed_by_id: "consistent w \<Longrightarrow> keyed_by_id w ids"
proof -
  assume c: "consistent w"
  have "case cache w (get_cache_key i) of None \<Rightarrow> True
        | Some (t, d) \<Rightarrow> pyval_id (json_loads d) = Some i" for i
  proof (cases "cache w (get_cache_key i)")
    case None
    then show ?thesis by simp
  next
    case (Some e)
    from c have "entry_fresh (rows w) (cache w) i" by (simp add: consistent_def coherent_def)
    with Some obtain r where r: "find (\<lambda>r. md_id r = i) (rows w) = Some r"
      and e: "e = (CACHE_TTL, json_dumps (PyDict r))"
      by (auto simp: entry_fresh_def split: option.splits)
    from r have "md_id r = i" by (blast dest: find_id_Some)
    with Some e show ?thesis by (simp add: loads_object_def dumps_object_def)
  qed
  then show ?thesis by (simp add: keyed_by_id_def list_all_iff)
qed

lemma consistent_distinct_ids: "consistent w \<Longrightarrow> distinct (map md_id (rows w))"
  by (simp add: consistent_def coherent_def)

section \<open>Mutations and sequences under every fault\<close>

lemmas mutation_defs = mutation_events_def completed_calls_def committed_def mutation_error_def
  create_calls_def update_calls_def delete_calls_def new_events_def

lemma create_movie_all_faults:
  "new_events w (snd (create_movie m w)) =
     mutation_events (Insert m) (create_calls w m) True (fault w)"
  "cache (snd (create_movie m w)) =
     foldl apply_call (cache w) (completed_calls (create_calls w m) True (fault w))"
  "rows (snd (create_movie m w)) =
     (if committed (create_calls w m) True (fault w) then rows w @ [row_of (next_id w) m]
      else rows w)"
  "fst (create_movie m w) =
     (if committed (create_calls w m) True (fault w) then Inr (PyDict (row_of (next_id w) m))
      else Inl (mutation_error (create_calls w m) True (fault w)))"
  by (cases "fault w";
      auto simp: mutation_defs create_movie_def io_defs redis_delete_def redis_setex_def
        cache_call_def fetchone_def simp del: json_dumps.simps split: nat.splits)+

lemma update_movie_all_faults:
  "new_events w (snd (update_movie i m w)) =
     mutation_events (Update i m) (update_calls i m)
       (find (\<lambda>r. md_id r = i) (rows w) \<noteq> None) (fault w)"
  "cache (snd (update_movie i m w)) =
     foldl apply_call (cache w)
       (completed_calls (update_calls i m) (find (\<lambda>r. md_id r = i) (rows w) \<noteq> None) (fault w))"
  "rows (snd (update_movie i m w)) =
     (if committed (update_calls i m) (find (\<lambda>r. md_id r = i) (rows w) \<noteq> None) (fault w)
      then map (\<lambda>r. if md_id r = i then row_of i m else r) (rows w) else rows w)"
  "fst (update_movie i m w) =
     (if committed (update_calls i m) (find (\<lambda>r. md_id r = i) (rows w) \<noteq> None) (fault w)
      then Inr (PyDict (row_of i m))
      else Inl (mutation_error (update_calls i m)
                  (find (\<lambda>r. md_id r = i) (rows w) \<noteq> None) (fault w)))"
  by (cases "fault w";
      auto simp: mutation_defs update_movie_def io_defs redis_delete_def redis_setex_def
        cache_call_def simp del: json_dumps.simps split: nat.splits option.splits)+

lemma delete_movie_all_faults:
  "new_events w (snd (delete_movie i w)) =
     mutation_events (DeleteById i) (delete_calls i)
       (find (\<lambda>r. md_id r = i) (rows w) \<noteq> None) (fault w)"
  "cache (snd (delete_movie i w)) =
     foldl apply_call (cache w)
       (completed_calls (delete_calls i) (find (\<lambda>r. md_id r = i) (rows w) \<noteq> None) (fault w))"
  "rows (snd (delete_movie i w)) =
     (if committed (delete_calls i) (find (\<lambda>r. md_id r = i) (rows w) \<noteq> None) (fault w)
      then filter (\<lambda>r. md_id r \<noteq> i) (rows w) else rows w)"
  "fst (delete_movie i w) =
     (if committed (delete_calls i) (find (\<lambda>r. md_id r = i) (rows w) \<noteq> None) (fault w)
      then Inr ''Movie deleted successfully''
      else Inl (mutation_error (delete_calls i)
                  (find (\<lambda>r. md_id r = i) (rows w) \<noteq> None) (fault w)))"
  by (cases "fault w";
      auto simp: mutation_defs delete_movie_def io_defs redis_delete_def
        cache_call_def split: nat.splits option.splits)+

lemma until_commit_calls:
  "list_all is_cache_event calls \<Longrightarrow> until_commit (calls @ [Commit, Close])"
  "list_all is_cache_event calls \<Longrightarrow> until_commit (calls @ [Commit, Rollback, Close])"
  "list_all is_cache_event calls \<Longrightarrow> until_commit (calls @ [Rollback, Close])"
  by (induction calls) auto

lemma list_all_take: "list_all P xs \<Longrightarrow> list_all P (take n xs)"
  by (auto simp: list_all_iff dest: in_set_takeD)

lemma mutation_events_inside:
  "list_all is_cache_event calls \<Longrightarrow>
   calls_inside_transaction (mutation_events q calls matched f)"
  by (cases f) (simp_all add: mutation_events_def until_commit_calls list_all_take)

lemma mutation_handlers_inside:
  "calls_inside_transaction (new_events w (snd (create_movie m w)))"
  "calls_inside_transaction (new_events w (snd (update_movie i m w)))"
  "calls_inside_transaction (new_events w (snd (delete_movie i w)))"
  by (simp_all add: create_movie_all_faults update_movie_all_faults delete_movie_all_faults
      mutation_events_inside create_calls_def update_calls_def delete_calls_def)

lemma create_movie_commit_fails:
  "fault w = CommitFails \<Longrightarrow>
   create_movie m w =
     (Inl StoreFailure,
      w\<lparr>next_id := next_id w + 1,
        cache := (cache w)(get_cache_key (next_id w) \<mapsto>
                             (CACHE_TTL, json_dumps (PyDict (row_of (next_id w) m))),
                           get_all_movies_cache_key := None),
        trace := trace w @ [Connect, Execute (Insert m),
                            CacheSetex (get_cache_key (next_id w)) CACHE_TTL
                              (json_dumps (PyDict (row_of (next_id w) m))),
                            CacheDelete get_all_movies_cache_key, Commit, Rollback, Close],
        fault := NoFault\<rparr>)"
  by (simp add: create_movie_def io_defs redis_setex_ok redis_delete_ok fetchone_def row_of_def)

lemma update_movie_commit_fails:
  "fault w = CommitFails \<Longrightarrow> find (\<lambda>r. md_id r = i) (rows w) = Some r \<Longrightarrow>
   update_movie i m w =
     (Inl StoreFailure,
      w\<lparr>cache := (cache w)(get_cache_key i \<mapsto> (CACHE_TTL, json_dumps (PyDict (row_of i m))),
                           get_all_movies_cache_key := None),
        trace := trace w @ [Connect, Execute (Update i m),
                            CacheSetex (get_cache_key i) CACHE_TTL (json_dumps (PyDict (row_of i m))),
                            CacheDelete get_all_movies_cache_key, Commit, Rollback, Close],
        fault := NoFault\<rparr>)"
  by (simp add: update_movie_def io_defs redis_setex_ok redis_delete_ok)

lemma delete_movie_commit_fails:
  "fault w = CommitFails \<Longrightarrow> find (\<lambda>r. md_id r = i) (rows w) = Some r \<Longrightarrow>
   delete_movie i w =
     (Inl StoreFailure,
      w\<lparr>cache := (cache w)(get_cache_key i := None, get_all_movies_cache_key := None),
        trace := trace w @ [Connect, Execute (DeleteById i), CacheDelete (get_cache_key i),
                            CacheDelete get_all_movies_cache_key, Commit, Rollback, Close],
        fault := NoFault\<rparr>)"
  by (simp add: delete_movie_def io_defs redis_setex_ok redis_delete_ok)

lemma absent_list_all_refills:
  "cache w1 get_all_movies_cache_key = None \<Longrightarrow> list_all_refills w1"
  unfolding list_all_refills_def
  using get_movies_all_miss [of "w1\<lparr>fault := NoFault\<rparr>" None] by simp

lemma w_listed_simps:
  "fault w_listed = NoFault"
  "rows w_listed = [inception_row]"
  "next_id w_listed = 2"
  "trace w_listed = []"
  "cache w_listed = [''movie:1'' \<mapsto> (3600, json_dumps (PyDict inception_row)),
                     ''movies:all'' \<mapsto> (3600, json_dumps (PyList [inception_row]))]"
  by (simp_all add: w_listed_def w_stored_def w0_def)

lemma md_id_inception_row: "md_id inception_row = 1"
  by (simp add: inception_row_def row_of_def)

lemma ef_absent: "c (get_cache_key i) = None \<Longrightarrow> entry_fresh rs c i"
  by (simp add: entry_fresh_def)

lemma ef_del: "entry_fresh rs c i \<Longrightarrow> entry_fresh rs (c(k := None)) i"
  by (simp add: entry_fresh_def)

lemma ef_write_other:
  "i \<noteq> j \<Longrightarrow> entry_fresh rs c i \<Longrightarrow> entry_fresh rs (c(get_cache_key j \<mapsto> e)) i"
  by (simp add: entry_fresh_def)

lemma ef_write_all:
  "entry_fresh rs c i \<Longrightarrow> entry_fresh rs (c(get_all_movies_cache_key \<mapsto> e)) i"
  by (simp add: entry_fresh_def)

lemma ef_write_self:
  "find (\<lambda>r. md_id r = i) rs = Some r \<Longrightarrow>
   entry_fresh rs (c(get_cache_key i \<mapsto> (CACHE_TTL, json_dumps (PyDict r)))) i"
  by (simp add: entry_fresh_def)

lemma ef_write_row:
  assumes "distinct (map md_id rs)" and "r \<in> set rs" and "entry_fresh rs c i"
  shows "entry_fresh rs (write_row c r) i"
proof (cases "i = md_id r")
  case True
  with assms have "find (\<lambda>x. md_id x = i) rs = Some r" by (simp add: find_distinct_id)
  with True show ?thesis by (simp add: entry_fresh_def write_row_def)
next
  case False
  with assms(3) show ?thesis by (simp add: entry_fresh_def write_row_def)
qed

lemma ef_foldl_write:
  "distinct (map md_id rs) \<Longrightarrow> set rs' \<subseteq> set rs \<Longrightarrow> entry_fresh rs c i \<Longrightarrow>
   entry_fresh rs (foldl write_row c rs') i"
  by (induction rs' arbitrary: c) (simp_all add: ef_write_row)

lemma ef_append: "entry_fresh rs c i \<Longrightarrow> entry_fresh (rs @ xs) c i"
  by (auto simp: entry_fresh_def find_append_cases split: option.splits)

lemma ef_append_new:
  "\<forall>r\<in>set rs. md_id r < n \<Longrightarrow>
   entry_fresh (rs @ [row_of n m]) (c(get_cache_key n \<mapsto> (CACHE_TTL, json_dumps (PyDict (row_of n m))))) n"
proof -
  assume "\<forall>r\<in>set rs. md_id r < n"
  then have "n \<notin> md_id ` set rs" by auto
  then have "find (\<lambda>r. md_id r = n) rs = None" by (simp add: find_id_None)
  then show ?thesis by (simp add: entry_fresh_def find_append_cases)
qed

lemma ef_update_other:
  "i \<noteq> j \<Longrightarrow> entry_fresh rs c i \<Longrightarrow>
   entry_fresh (map (\<lambda>r. if md_id r = j then row_of j m else r) rs) c i"
  by (auto simp: entry_fresh_def find_map_update split: option.splits dest: find_id_Some)

lemma ef_update_self:
  assumes "find (\<lambda>r. md_id r = j) rs \<noteq> None"
  shows "entry_fresh (map (\<lambda>r. if md_id r = j then row_of j m else r) rs)
           (c(get_cache_key j \<mapsto> (CACHE_TTL, json_dumps (PyDict (row_of j m))))) j"
proof -
  from assms obtain r where r: "find (\<lambda>r. md_id r = j) rs = Some r" by blast
  then have "md_id r = j" by (blast dest: find_id_Some)
  with r show ?thesis by (simp add: entry_fresh_def find_map_update)
qed

lemma ef_delete_other:
  "i \<noteq> j \<Longrightarrow> entry_fresh rs c i \<Longrightarrow> entry_fresh (filter (\<lambda>r. md_id r \<noteq> j) rs) c i"
  by (auto simp: entry_fresh_def find_filter_other split: option.splits)

lemma fault_split [case_names NoFault ConnectFails ExecuteFails CommitFails Cache0 Cache1 CacheLater]:
  assumes "f = NoFault \<Longrightarrow> P" and "f = ConnectFails \<Longrightarrow> P" and "f = ExecuteFails \<Longrightarrow> P"
    and "f = CommitFails \<Longrightarrow> P" and "f = CacheFails 0 \<Longrightarrow> P" and "f = CacheFails (Suc 0) \<Longrightarrow> P"
    and "\<And>n. f = CacheFails (Suc (Suc n)) \<Longrightarrow> P"
  shows P
proof (cases f)
  case (CacheFails k)
  then show ?thesis using assms(5-7) by (cases k rule: nat.exhaust; cases "k - 1") auto
qed (use assms in auto)

lemma create_entry:
  "store_ok w \<Longrightarrow> entry_fresh (rows w) (cache w) i \<Longrightarrow> \<not> taints (OpCreate m) (fault w) w i \<Longrightarrow>
   entry_fresh (rows (snd (create_movie m w))) (cache (snd (create_movie m w))) i"
  by (cases "i = next_id w"; cases "fault w" rule: fault_split)
     (auto simp: create_movie_all_faults mutation_defs store_ok_def fails_after_write_def
        simp del: json_dumps.simps split: nat.splits
        intro: ef_del ef_write_other ef_append ef_append_new)

lemma update_entry:
  "entry_fresh (rows w) (cache w) i \<or> clears (OpUpdate j m) (fault w) w i \<Longrightarrow>
   \<not> taints (OpUpdate j m) (fault w) w i \<Longrightarrow>
   entry_fresh (rows (snd (update_movie j m w))) (cache (snd (update_movie j m w))) i"
  by (cases "i = j"; cases "fault w" rule: fault_split; cases "find (\<lambda>r. md_id r = j) (rows w)")
     (auto simp: update_movie_all_faults mutation_defs fails_after_write_def
        simp del: json_dumps.simps split: nat.splits
        intro: ef_del ef_write_other ef_update_other ef_update_self ef_write_self)

lemma delete_entry:
  "entry_fresh (rows w) (cache w) i \<or> clears (OpDelete j) (fault w) w i \<Longrightarrow>
   entry_fresh (rows (snd (delete_movie j w))) (cache (snd (delete_movie j w))) i"
  by (cases "i = j"; cases "fault w" rule: fault_split; cases "find (\<lambda>r. md_id r = j) (rows w)")
     (auto simp: delete_movie_all_faults mutation_defs
        split: nat.splits intro: ef_del ef_absent ef_delete_other)

lemma get_movie_entry:
  "entry_fresh (rows w) (cache w) i \<Longrightarrow>
   entry_fresh (rows (snd (get_movie j w))) (cache (snd (get_movie j w))) i"
  by (cases "i = j"; cases "fault w" rule: fault_split)
     (auto simp: get_movie_def io_defs redis_get_def redis_setex_def cache_call_def
        simp del: json_dumps.simps split: option.splits nat.splits
        intro: ef_write_other ef_write_self)

lemma get_movies_entry:
  "entry_fresh (rows w) (cache w) i \<Longrightarrow>
   entry_fresh (rows (snd (get_movies g w))) (cache (snd (get_movies g w))) i"
  by (cases "fault w" rule: fault_split)
     (auto simp: get_movies_def io_defs redis_get_def redis_setex_def cache_call_def
        simp del: json_dumps.simps split: option.splits nat.splits intro: ef_write_all)

lemma get_db_connection_read_frame:
  assumes "\<And>w. rows (snd (body w)) = rows w \<and> next_id (snd (body w)) = next_id w"
  shows "rows (snd (get_db_connection body w)) = rows w
       \<and> next_id (snd (get_db_connection body w)) = next_id w
       \<and> (cache (snd (get_db_connection body w)) = cache (snd (body (log Connect w)))
          \<or> cache (snd (get_db_connection body w)) = cache w)"
proof (cases "body (log Connect w)")
  case (Pair res w1)
  with assms [of "log Connect w"] have "rows w1 = rows w" "next_id w1 = next_id w"
    by (simp_all add: log_def)
  with Pair show ?thesis
    by (cases res) (auto simp: get_db_connection_def Let_def log_def)
qed

lemma batch_body_frame:
  "rows (snd (io_bind (execute (SelectByIds us)) (\<lambda>results. cache_rows results ms) w)) = rows w
 \<and> next_id (snd (io_bind (execute (SelectByIds us)) (\<lambda>results. cache_rows results ms) w)) = next_id w
 \<and> (\<exists>rs. set rs \<subseteq> set (rows w) \<and>
        cache (snd (io_bind (execute (SelectByIds us)) (\<lambda>results. cache_rows results ms) w)) =
          foldl write_row (cache w) rs)"
proof (cases "fault w = ExecuteFails")
  case True
  then have "rows (snd (io_bind (execute (SelectByIds us)) (\<lambda>results. cache_rows results ms) w)) = rows w"
    "next_id (snd (io_bind (execute (SelectByIds us)) (\<lambda>results. cache_rows results ms) w)) = next_id w"
    "cache (snd (io_bind (execute (SelectByIds us)) (\<lambda>results. cache_rows results ms) w)) =
       foldl write_row (cache w) []"
    by (simp_all add: io_bind_def execute_def log_def Let_def)
  then show ?thesis by (metis empty_set empty_subsetI)
next
  case False
  let ?w1 = "log (Execute (SelectByIds us)) w"
  let ?rs = "filter (\<lambda>r. md_id r \<in> set us) (rows w)"
  from False have e: "io_bind (execute (SelectByIds us)) (\<lambda>results. cache_rows results ms) w =
      cache_rows ?rs ms ?w1"
    by (simp add: io_bind_def execute_def log_def Let_def)
  from cache_rows_frame [of ?rs ms ?w1] obtain k where
    k: "cache (snd (cache_rows ?rs ms ?w1)) = foldl write_row (cache ?w1) (take k ?rs)"
    and r: "rows (snd (cache_rows ?rs ms ?w1)) = rows ?w1"
    and n: "next_id (snd (cache_rows ?rs ms ?w1)) = next_id ?w1"
    by blast
  have s: "set (take k ?rs) \<subseteq> set (rows w)" using set_take_subset [of k ?rs] by auto
  from k r n have "rows (snd (cache_rows ?rs ms ?w1)) = rows w"
    "next_id (snd (cache_rows ?rs ms ?w1)) = next_id w"
    "cache (snd (cache_rows ?rs ms ?w1)) = foldl write_row (cache w) (take k ?rs)"
    by (simp_all add: log_def)
  with s show ?thesis unfolding e by blast
qed

lemma get_movies_batch_frame:
  "rows (snd (get_movies_batch ids w)) = rows w
 \<and> next_id (snd (get_movies_batch ids w)) = next_id w
 \<and> (\<exists>rs. set rs \<subseteq> set (rows w) \<and>
        cache (snd (get_movies_batch ids w)) = foldl write_row (cache w) rs)"
proof -
  have triv: "\<And>w'. rows w' = rows w \<Longrightarrow> next_id w' = next_id w \<Longrightarrow> cache w' = cache w \<Longrightarrow>
      rows w' = rows w \<and> next_id w' = next_id w
      \<and> (\<exists>rs. set rs \<subseteq> set (rows w) \<and> cache w' = foldl write_row (cache w) rs)"
  proof -
    fix w' assume "rows w' = rows w" "next_id w' = next_id w" "cache w' = cache w"
    then have "rows w' = rows w" "next_id w' = next_id w"
      "set [] \<subseteq> set (rows w) \<and> cache w' = foldl write_row (cache w) []" by simp_all
    then show "rows w' = rows w \<and> next_id w' = next_id w
      \<and> (\<exists>rs. set rs \<subseteq> set (rows w) \<and> cache w' = foldl write_row (cache w) rs)" by blast
  qed
  show ?thesis
  proof (cases "ids = []")
    case True
    then show ?thesis using triv [of w] by (simp add: get_movies_batch_empty)
  next
    case False
    obtain res w1 where p: "probe_cache ids [] [] w = (res, w1)" by (cases "probe_cache ids [] [] w")
    with probe_cache_frame [of ids "[]" "[]" w]
    have f1: "rows w1 = rows w" "next_id w1 = next_id w" "cache w1 = cache w" by simp_all
    show ?thesis
    proof (cases res)
      case (Inl e)
      with p False have "snd (get_movies_batch ids w) = w1"
        by (simp add: get_movies_batch_def io_bind_def)
      with f1 triv [of w1] show ?thesis by simp
    next
      case (Inr v)
      obtain ms us where v: "v = (ms, us)" by (cases v)
      show ?thesis
      proof (cases "us = []")
        case True
        with p Inr v False have "snd (get_movies_batch ids w) = w1"
          by (simp add: get_movies_batch_def io_bind_def io_return_def)
        with f1 triv [of w1] show ?thesis by simp
      next
        case ne: False
        let ?body = "io_bind (execute (SelectByIds us)) (\<lambda>results. cache_rows results ms)"
        from p Inr v ne False have g: "snd (get_movies_batch ids w) = snd (get_db_connection ?body w1)"
          by (simp add: get_movies_batch_def io_bind_def)
        have bf: "\<And>w. rows (snd (?body w)) = rows w \<and> next_id (snd (?body w)) = next_id w"
          using batch_body_frame by blast
        from get_db_connection_read_frame [of ?body w1, OF bf]
        have r: "rows (snd (get_db_connection ?body w1)) = rows w"
          and n: "next_id (snd (get_db_connection ?body w1)) = next_id w"
          and c: "cache (snd (get_db_connection ?body w1)) = cache (snd (?body (log Connect w1)))
            \<or> cache (snd (get_db_connection ?body w1)) = cache w"
          using f1 by simp_all
        from batch_body_frame [of us ms "log Connect w1"] obtain rs where
          rs: "set rs \<subseteq> set (rows w)"
          "cache (snd (?body (log Connect w1))) = foldl write_row (cache w) rs"
          using f1 by (auto simp: log_def)
        from c show ?thesis
        proof
          assume "cache (snd (get_db_connection ?body w1)) = cache (snd (?body (log Connect w1)))"
          with rs r n g show ?thesis by auto
        next
          assume "cache (snd (get_db_connection ?body w1)) = cache w"
          with r n g triv [of "snd (get_db_connection ?body w1)"] show ?thesis by simp
        qed
      qed
    qed
  qed
qed

lemma get_movies_batch_entry:
  "distinct (map md_id (rows w)) \<Longrightarrow> entry_fresh (rows w) (cache w) i \<Longrightarrow>
   entry_fresh (rows (snd (get_movies_batch ids w))) (cache (snd (get_movies_batch ids w))) i"
  using get_movies_batch_frame [of ids w] by (auto simp: ef_foldl_write)

lemma map_md_id_update:
  "map md_id (map (\<lambda>r. if md_id r = j then row_of j m else r) rs) = map md_id rs"
  by (induction rs) auto

lemma get_movie_store:
  "rows (snd (get_movie j w)) = rows w \<and> next_id (snd (get_movie j w)) = next_id w"
  by (cases "fault w" rule: fault_split)
     (auto simp: get_movie_def io_defs redis_get_def redis_setex_def cache_call_def
        split: option.splits)

lemma get_movies_store:
  "rows (snd (get_movies g w)) = rows w \<and> next_id (snd (get_movies g w)) = next_id w"
  by (cases "fault w" rule: fault_split)
     (auto simp: get_movies_def io_defs redis_get_def redis_setex_def cache_call_def
        split: option.splits)

lemma create_movie_store: "store_ok w \<Longrightarrow> store_ok (snd (create_movie m w))"
  by (cases "fault w" rule: fault_split)
     (auto simp: store_ok_def create_movie_def io_defs redis_delete_def redis_setex_def
        cache_call_def fetchone_def)

lemma update_movie_store: "store_ok w \<Longrightarrow> store_ok (snd (update_movie j m w))"
  by (cases "fault w" rule: fault_split; cases "find (\<lambda>r. md_id r = j) (rows w)")
     (auto simp: store_ok_def update_movie_def io_defs redis_delete_def redis_setex_def
        cache_call_def map_md_id_update simp del: map_map)

lemma delete_movie_store: "store_ok w \<Longrightarrow> store_ok (snd (delete_movie j w))"
  by (cases "fault w" rule: fault_split; cases "find (\<lambda>r. md_id r = j) (rows w)")
     (auto simp: store_ok_def delete_movie_def io_defs redis_delete_def
        cache_call_def distinct_map_filter)

lemma store_ok_fault [simp]: "store_ok (w\<lparr>fault := f\<rparr>) = store_ok w"
  by (simp add: store_ok_def)

lemma run_op_store_ok: "store_ok w \<Longrightarrow> store_ok (run_op p (w\<lparr>fault := f\<rparr>))"
proof (cases p)
  case (OpGet j)
  assume "store_ok w"
  with OpGet get_movie_store [of j "w\<lparr>fault := f\<rparr>"] show ?thesis by (simp add: store_ok_def)
next
  case (OpGetBatch ids)
  assume "store_ok w"
  with OpGetBatch get_movies_batch_frame [of ids "w\<lparr>fault := f\<rparr>"] show ?thesis
    by (simp add: store_ok_def)
next
  case (OpGetMovies g)
  assume "store_ok w"
  with OpGetMovies get_movies_store [of g "w\<lparr>fault := f\<rparr>"] show ?thesis
    by (simp add: store_ok_def)
next
  case (OpCreate m)
  assume "store_ok w"
  with OpCreate create_movie_store [of "w\<lparr>fault := f\<rparr>" m] show ?thesis by simp
next
  case (OpUpdate j m)
  assume "store_ok w"
  with OpUpdate update_movie_store [of "w\<lparr>fault := f\<rparr>" j m] show ?thesis by simp
next
  case (OpDelete j)
  assume "store_ok w"
  with OpDelete delete_movie_store [of "w\<lparr>fault := f\<rparr>" j] show ?thesis by simp
next
  case (OpExpire k)
  assume "store_ok w"
  with OpExpire show ?thesis by (simp add: store_ok_def)
qed

lemma run_op_entry:
  assumes "store_ok w" and "entry_fresh (rows w) (cache w) i \<or> clears p f w i"
    and "\<not> taints p f w i"
  shows "entry_fresh (rows (run_op p (w\<lparr>fault := f\<rparr>))) (cache (run_op p (w\<lparr>fault := f\<rparr>))) i"
proof (cases p)
  case (OpGet j)
  with assms(2) get_movie_entry [of "w\<lparr>fault := f\<rparr>" i j] show ?thesis by simp
next
  case (OpGetBatch ids)
  with assms(1,2) get_movies_batch_entry [of "w\<lparr>fault := f\<rparr>" i ids] show ?thesis
    by (simp add: store_ok_def)
next
  case (OpGetMovies g)
  with assms(2) get_movies_entry [of "w\<lparr>fault := f\<rparr>" i g] show ?thesis by simp
next
  case (OpCreate m)
  with assms create_entry [of "w\<lparr>fault := f\<rparr>" i m] show ?thesis by simp
next
  case (OpUpdate j m)
  with assms update_entry [of "w\<lparr>fault := f\<rparr>" i j m] show ?thesis by simp
next
  case (OpDelete j)
  with assms delete_entry [of "w\<lparr>fault := f\<rparr>" i j] show ?thesis by simp
next
  case (OpExpire k)
  with assms(2) show ?thesis by (auto intro: ef_del ef_absent)
qed

lemma run_suspect:
  "store_ok w \<Longrightarrow> (\<not> s \<longrightarrow> entry_fresh (rows w) (cache w) i) \<Longrightarrow> \<not> suspect s ops w i \<Longrightarrow>
   entry_fresh (rows (run ops w)) (cache (run ops w)) i"
proof (induction ops arbitrary: s w)
  case Nil
  then show ?case by simp
next
  case (Cons a ops)
  obtain p f where a: "a = (p, f)" by (cases a)
  let ?w' = "run_op p (w\<lparr>fault := f\<rparr>)"
  let ?s' = "(s \<and> \<not> clears p f w i) \<or> taints p f w i"
  have ok: "store_ok ?w'" using Cons.prems(1) by (rule run_op_store_ok)
  have e: "\<not> ?s' \<longrightarrow> entry_fresh (rows ?w') (cache ?w') i"
  proof
    assume n: "\<not> ?s'"
    then have "entry_fresh (rows w) (cache w) i \<or> clears p f w i" using Cons.prems(2) by blast
    moreover from n have "\<not> taints p f w i" by blast
    ultimately show "entry_fresh (rows ?w') (cache ?w') i"
      using Cons.prems(1) by (intro run_op_entry)
  qed
  from Cons.prems(3) a have "\<not> suspect ?s' ops ?w' i" by simp
  from Cons.IH [OF ok e this] a show ?case by simp
qed

lemma harmless_not_suspect:
  "list_all (\<lambda>(p, f). \<not> harmful p f) ops \<Longrightarrow> \<not> s \<Longrightarrow> \<not> suspect s ops w i"
proof (induction ops arbitrary: s w)
  case Nil
  then show ?case by simp
next
  case (Cons a ops)
  obtain p f where a: "a = (p, f)" by (cases a)
  with Cons.prems have h: "\<not> harmful p f" and r: "list_all (\<lambda>(p, f). \<not> harmful p f) ops"
    by simp_all
  from h have "\<not> taints p f w i" by (cases p) (auto simp: fails_after_write_def)
  with Cons.prems(2) have "\<not> ((s \<and> \<not> clears p f w i) \<or> taints p f w i)" by simp
  from Cons.IH [OF r this] a show ?case by simp
qed

lemma w_cached_simps:
  "rows w_cached = [inception_row]"
  "next_id w_cached = 2"
  "trace w_cached = []"
  "cache w_cached = [''movie:1'' \<mapsto> (3600, json_dumps (PyDict inception_row))]"
  by (simp_all add: w_cached_def w_stored_def w0_def)

lemma run_ops_recovered:
  "rows (run ops_recovered w0) = [inception_row]"
  "cache (run ops_recovered w0) = [''movie:1'' \<mapsto> (3600, json_dumps (PyDict inception_row))]"
  by (simp_all add: ops_recovered_def w0_def create_movie_ok create_movie_commit_fails
      get_cache_key_1 get_cache_key_2 CACHE_TTL_def get_all_movies_cache_key_def
      inception_row_def fun_upd_idem fun_upd_twist del: json_dumps.simps)

lemma suspect_ops_recovered:
  "\<not> suspect False ops_recovered w0 1" "\<not> suspect False ops_recovered w0 2"
  by (simp_all add: ops_recovered_def w0_def create_movie_ok create_movie_commit_fails
      get_cache_key_2 [symmetric] fails_after_write_def del: json_dumps.simps)

section \<open>Single lookup\<close>

text \<open>
  Claim C3. When nothing fails, \<open>get_movie\<close> does one of three things. If the per-id key
  is present, it returns the deserialized document, and the only call it makes is the cache
  read. If the key is absent and the store has no row with the id, it raises \<open>NotFound\<close>
  after one query, the cache is as before and no cache write is made. If the key is absent
  and the store has the row, it writes the row under the per-id key with \<open>CACHE_TTL\<close>
  and returns the row.
\<close>

theorem get_movie_cases:
  assumes "fault w = NoFault"
  shows "(cache w (get_cache_key i) = Some (ttl, d) \<longrightarrow>
            get_movie i w = (Inr (json_loads d), w\<lparr>trace := trace w @ [CacheGet (get_cache_key i)]\<rparr>))
       \<and> (cache w (get_cache_key i) = None \<and> find (\<lambda>r. md_id r = i) (rows w) = None \<longrightarrow>
            get_movie i w =
              (Inl NotFound,
               w\<lparr>trace := trace w @ [CacheGet (get_cache_key i), Connect, Execute (SelectById i),
                                      Rollback, Close]\<rparr>))
       \<and> (cache w (get_cache_key i) = None \<and> find (\<lambda>r. md_id r = i) (rows w) = Some r \<longrightarrow>
            get_movie i w =
              (Inr (PyDict r),
               w\<lparr>cache := (cache w)(get_cache_key i \<mapsto> (CACHE_TTL, json_dumps (PyDict r))),
                 trace := trace w @ [CacheGet (get_cache_key i), Connect, Execute (SelectById i),
                                     CacheSetex (get_cache_key i) CACHE_TTL (json_dumps (PyDict r)),
                                     Commit, Close]\<rparr>))"
  using assms
  by (simp add: get_movie_def io_bind_def io_return_def io_raise_def redis_get_ok redis_setex_ok
      get_db_connection_def execute_def fetchone_filter log_def Let_def)

theorem get_movie_cases_witness:
  "get_movie 1 w_cached =
     (Inr (json_loads (json_dumps (PyDict inception_row))),
      w_cached\<lparr>trace := [CacheGet ''movie:1'']\<rparr>)
   \<and> get_movie 1 w0 =
     (Inl NotFound,
      w0\<lparr>trace := [CacheGet ''movie:1'', Connect, Execute (SelectById 1), Rollback, Close]\<rparr>)
   \<and> get_movie 1 w_stored =
     (Inr (PyDict inception_row),
      w_stored\<lparr>cache := [''movie:1'' \<mapsto> (3600, json_dumps (PyDict inception_row))],
                trace := [CacheGet ''movie:1'', Connect, Execute (SelectById 1),
                          CacheSetex ''movie:1'' 3600 (json_dumps (PyDict inception_row)),
                          Commit, Close]\<rparr>)"
  using get_movie_cases [of w_cached 1 3600 "json_dumps (PyDict inception_row)"]
        get_movie_cases [of w0 1]
        get_movie_cases [of w_stored 1 _ _ inception_row]
  by (simp add: w_cached_def w_stored_def w0_def get_cache_key_1 CACHE_TTL_def inception_row_def
      row_of_def)

section \<open>Mutations: the store first, then the cache\<close>

text \<open>
  Claim C1, as amended. In \<open>create_movie\<close>, \<open>update_movie\<close> and \<open>delete_movie\<close>,
  whatever fails, every cache call is made inside the \<^verbatim>\<open>with get_db_connection()\<close> block:
  after the statement has executed, and before the commit, which runs when the block is
  left. The events, the cache, the table and the result of each handler are those of
  \<open>mutation_events\<close>, \<open>completed_calls\<close>, \<open>committed\<close> and \<open>mutation_error\<close>
  under every fault: when a cache call or the commit fails, the transaction is rolled back
  and the error propagates, and the cache calls made before the failure stay in effect. When
  the connection cannot be opened, or the statement fails, the error propagates (after a
  rollback, when the statement failed), no cache call is made and the cache and the table
  are as before; when no row matches, the same holds with \<open>NotFound\<close>.
\<close>

theorem store_failure_before_cache:
  "calls_inside_transaction (new_events w (snd (create_movie m w)))
 \<and> calls_inside_transaction (new_events w (snd (update_movie i m w)))
 \<and> calls_inside_transaction (new_events w (snd (delete_movie i w)))
 \<and> new_events w (snd (create_movie m w)) =
      mutation_events (Insert m) (create_calls w m) True (fault w)
 \<and> cache (snd (create_movie m w)) =
      foldl apply_call (cache w) (completed_calls (create_calls w m) True (fault w))
 \<and> rows (snd (create_movie m w)) =
      (if committed (create_calls w m) True (fault w) then rows w @ [row_of (next_id w) m]
       else rows w)
 \<and> fst (create_movie m w) =
      (if committed (create_calls w m) True (fault w) then Inr (PyDict (row_of (next_id w) m))
       else Inl (mutation_error (create_calls w m) True (fault w)))
 \<and> new_events w (snd (update_movie i m w)) =
      mutation_events (Update i m) (update_calls i m)
        (find (\<lambda>r. md_id r = i) (rows w) \<noteq> None) (fault w)
 \<and> cache (snd (update_movie i m w)) =
      foldl apply_call (cache w)
        (completed_calls (update_calls i m) (find (\<lambda>r. md_id r = i) (rows w) \<noteq> None) (fault w))
 \<and> rows (snd (update_movie i m w)) =
      (if committed (update_calls i m) (find (\<lambda>r. md_id r = i) (rows w) \<noteq> None) (fault w)
       then map (\<lambda>r. if md_id r = i then row_of i m else r) (rows w) else rows w)
 \<and> fst (update_movie i m w) =
      (if committed (update_calls i m) (find (\<lambda>r. md_id r = i) (rows w) \<noteq> None) (fault w)
       then Inr (PyDict (row_of i m))
       else Inl (mutation_error (update_calls i m)
                   (find (\<lambda>r. md_id r = i) (rows w) \<noteq> None) (fault w)))
 \<and> new_events w (snd (delete_movie i w)) =
      mutation_events (DeleteById i) (delete_calls i)
        (find (\<lambda>r. md_id r = i) (rows w) \<noteq> None) (fault w)
 \<and> cache (snd (delete_movie i w)) =
      foldl apply_call (cache w)
        (completed_calls (delete_calls i) (find (\<lambda>r. md_id r = i) (rows w) \<noteq> None) (fault w))
 \<and> rows (snd (delete_movie i w)) =
      (if committed (delete_calls i) (find (\<lambda>r. md_id r = i) (rows w) \<noteq> None) (fault w)
       then filter (\<lambda>r. md_id r \<noteq> i) (rows w) else rows w)
 \<and> fst (delete_movie i w) =
      (if committed (delete_calls i) (find (\<lambda>r. md_id r = i) (rows w) \<noteq> None) (fault w)
       then Inr ''Movie deleted successfully''
       else Inl (mutation_error (delete_calls i)
                   (find (\<lambda>r. md_id r = i) (rows w) \<noteq> None) (fault w)))
 \<and> (fault w = ConnectFails \<longrightarrow>
      create_movie m w = (Inl StoreFailure, w\<lparr>trace := trace w @ [Connect], fault := NoFault\<rparr>)
    \<and> update_movie i m w = (Inl StoreFailure, w\<lparr>trace := trace w @ [Connect], fault := NoFault\<rparr>)
    \<and> delete_movie i w = (Inl StoreFailure, w\<lparr>trace := trace w @ [Connect], fault := NoFault\<rparr>))
 \<and> (fault w = ExecuteFails \<longrightarrow>
      create_movie m w =
        (Inl StoreFailure,
         w\<lparr>trace := trace w @ [Connect, Execute (Insert m), Rollback, Close], fault := NoFault\<rparr>)
    \<and> update_movie i m w =
        (Inl StoreFailure,
         w\<lparr>trace := trace w @ [Connect, Execute (Update i m), Rollback, Close], fault := NoFault\<rparr>)
    \<and> delete_movie i w =
        (Inl StoreFailure,
         w\<lparr>trace := trace w @ [Connect, Execute (DeleteById i), Rollback, Close], fault := NoFault\<rparr>))
 \<and> (fault w = NoFault \<longrightarrow>
      trace (snd (create_movie m w)) =
        trace w @ [Connect, Execute (Insert m),
                   CacheSetex (get_cache_key (next_id w)) CACHE_TTL
                     (json_dumps (PyDict (row_of (next_id w) m))),
                   CacheDelete get_all_movies_cache_key, Commit, Close]
    \<and> (find (\<lambda>r. md_id r = i) (rows w) \<noteq> None \<longrightarrow>
         trace (snd (update_movie i m w)) =
           trace w @ [Connect, Execute (Update i m),
                      CacheSetex (get_cache_key i) CACHE_TTL (json_dumps (PyDict (row_of i m))),
                      CacheDelete get_all_movies_cache_key, Commit, Close]
       \<and> trace (snd (delete_movie i w)) =
           trace w @ [Connect, Execute (DeleteById i), CacheDelete (get_cache_key i),
                      CacheDelete get_all_movies_cache_key, Commit, Close]))"
proof -
  have cf: "fault w = ConnectFails \<longrightarrow>
      create_movie m w = (Inl StoreFailure, w\<lparr>trace := trace w @ [Connect], fault := NoFault\<rparr>)
    \<and> update_movie i m w = (Inl StoreFailure, w\<lparr>trace := trace w @ [Connect], fault := NoFault\<rparr>)
    \<and> delete_movie i w = (Inl StoreFailure, w\<lparr>trace := trace w @ [Connect], fault := NoFault\<rparr>)"
    by (simp add: create_movie_def update_movie_def delete_movie_def connect_fails)
  have ef: "fault w = ExecuteFails \<longrightarrow>
      create_movie m w =
        (Inl StoreFailure,
         w\<lparr>trace := trace w @ [Connect, Execute (Insert m), Rollback, Close], fault := NoFault\<rparr>)
    \<and> update_movie i m w =
        (Inl StoreFailure,
         w\<lparr>trace := trace w @ [Connect, Execute (Update i m), Rollback, Close], fault := NoFault\<rparr>)
    \<and> delete_movie i w =
        (Inl StoreFailure,
         w\<lparr>trace := trace w @ [Connect, Execute (DeleteById i), Rollback, Close], fault := NoFault\<rparr>)"
    by (simp add: create_movie_execute_fails update_movie_execute_fails delete_movie_execute_fails)
  have nf: "fault w = NoFault \<longrightarrow>
      trace (snd (create_movie m w)) =
        trace w @ [Connect, Execute (Insert m),
                   CacheSetex (get_cache_key (next_id w)) CACHE_TTL
                     (json_dumps (PyDict (row_of (next_id w) m))),
                   CacheDelete get_all_movies_cache_key, Commit, Close]
    \<and> (find (\<lambda>r. md_id r = i) (rows w) \<noteq> None \<longrightarrow>
         trace (snd (update_movie i m w)) =
           trace w @ [Connect, Execute (Update i m),
                      CacheSetex (get_cache_key i) CACHE_TTL (json_dumps (PyDict (row_of i m))),
                      CacheDelete get_all_movies_cache_key, Commit, Close]
       \<and> trace (snd (delete_movie i w)) =
           trace w @ [Connect, Execute (DeleteById i), CacheDelete (get_cache_key i),
                      CacheDelete get_all_movies_cache_key, Commit, Close])"
    by (auto simp: create_movie_ok update_movie_found delete_movie_found)
  show ?thesis
    by (intro conjI mutation_handlers_inside create_movie_all_faults update_movie_all_faults
        delete_movie_all_faults cf ef nf)
qed

theorem store_failure_before_cache_witness:
  "create_movie inception (w0\<lparr>fault := ConnectFails\<rparr>) = (Inl StoreFailure, w0\<lparr>trace := [Connect]\<rparr>)
 \<and> delete_movie 1 (w_cached\<lparr>fault := ExecuteFails\<rparr>) =
     (Inl StoreFailure, w_cached\<lparr>trace := [Connect, Execute (DeleteById 1), Rollback, Close]\<rparr>)
 \<and> trace (snd (update_movie 1 inception_rerated w_cached)) =
     [Connect, Execute (Update 1 inception_rerated),
      CacheSetex ''movie:1'' 3600 (json_dumps (PyDict (row_of 1 inception_rerated))),
      CacheDelete ''movies:all'', Commit, Close]
 \<and> new_events (w_cached\<lparr>fault := CommitFails\<rparr>)
      (snd (update_movie 1 inception_rerated (w_cached\<lparr>fault := CommitFails\<rparr>))) =
     [Connect, Execute (Update 1 inception_rerated),
      CacheSetex ''movie:1'' 3600 (json_dumps (PyDict (row_of 1 inception_rerated))),
      CacheDelete ''movies:all'', Commit, Rollback, Close]
 \<and> calls_inside_transaction
      (new_events (w_cached\<lparr>fault := CommitFails\<rparr>)
         (snd (update_movie 1 inception_rerated (w_cached\<lparr>fault := CommitFails\<rparr>))))
 \<and> fst (update_movie 1 inception_rerated (w_cached\<lparr>fault := CommitFails\<rparr>)) = Inl StoreFailure
 \<and> rows (snd (update_movie 1 inception_rerated (w_cached\<lparr>fault := CommitFails\<rparr>))) =
     [inception_row]
 \<and> cache (snd (update_movie 1 inception_rerated (w_cached\<lparr>fault := CommitFails\<rparr>))) =
     [''movie:1'' \<mapsto> (3600, json_dumps (PyDict (row_of 1 inception_rerated)))]
 \<and> new_events (w_cached\<lparr>fault := CacheFails 0\<rparr>)
      (snd (delete_movie 1 (w_cached\<lparr>fault := CacheFails 0\<rparr>))) =
     [Connect, Execute (DeleteById 1), CacheDelete ''movie:1'', Rollback, Close]
 \<and> fst (delete_movie 1 (w_cached\<lparr>fault := CacheFails 0\<rparr>)) = Inl CacheFailure
 \<and> cache (snd (delete_movie 1 (w_cached\<lparr>fault := CacheFails 0\<rparr>))) = cache w_cached
 \<and> new_events (w_cached\<lparr>fault := CacheFails 1\<rparr>)
      (snd (create_movie inception_rerated (w_cached\<lparr>fault := CacheFails 1\<rparr>))) =
     [Connect, Execute (Insert inception_rerated),
      CacheSetex ''movie:2'' 3600 (json_dumps (PyDict (row_of 2 inception_rerated))),
      CacheDelete ''movies:all'', Rollback, Close]
 \<and> rows (snd (create_movie inception_rerated (w_cached\<lparr>fault := CacheFails 1\<rparr>))) =
     [inception_row]
 \<and> new_events (w0\<lparr>fault := CommitFails\<rparr>)
      (snd (update_movie 1 inception_rerated (w0\<lparr>fault := CommitFails\<rparr>))) =
     [Connect, Execute (Update 1 inception_rerated), Rollback, Close]
 \<and> fst (update_movie 1 inception_rerated (w0\<lparr>fault := CommitFails\<rparr>)) = Inl NotFound"
proof -
  note a = store_failure_before_cache [where w = "w0\<lparr>fault := ConnectFails\<rparr>" and m = inception]
  note b = store_failure_before_cache [where w = "w_cached\<lparr>fault := ExecuteFails\<rparr>" and i = 1]
  note c = store_failure_before_cache [where w = w_cached and i = 1 and m = inception_rerated]
  note d = store_failure_before_cache [where w = "w_cached\<lparr>fault := CommitFails\<rparr>" and i = 1
      and m = inception_rerated]
  note e = store_failure_before_cache [where w = "w_cached\<lparr>fault := CacheFails 0\<rparr>" and i = 1]
  note f = store_failure_before_cache [where w = "w_cached\<lparr>fault := CacheFails 1\<rparr>"
      and m = inception_rerated]
  note g = store_failure_before_cache [where w = "w0\<lparr>fault := CommitFails\<rparr>" and i = 1
      and m = inception_rerated]
  have 1: "create_movie inception (w0\<lparr>fault := ConnectFails\<rparr>) =
      (Inl StoreFailure, w0\<lparr>trace := [Connect]\<rparr>)"
    using a by (simp add: w0_def)
  have 2: "delete_movie 1 (w_cached\<lparr>fault := ExecuteFails\<rparr>) =
     (Inl StoreFailure, w_cached\<lparr>trace := [Connect, Execute (DeleteById 1), Rollback, Close]\<rparr>)"
    using b by (simp add: w_cached_def w_stored_def w0_def)
  have 3: "trace (snd (update_movie 1 inception_rerated w_cached)) =
     [Connect, Execute (Update 1 inception_rerated),
      CacheSetex ''movie:1'' 3600 (json_dumps (PyDict (row_of 1 inception_rerated))),
      CacheDelete ''movies:all'', Commit, Close]"
    using c
    by (simp add: w_cached_def w_stored_def w0_def get_cache_key_1 CACHE_TTL_def
        get_all_movies_cache_key_def md_id_inception_row del: json_dumps.simps)
  have 4: "new_events (w_cached\<lparr>fault := CommitFails\<rparr>)
      (snd (update_movie 1 inception_rerated (w_cached\<lparr>fault := CommitFails\<rparr>))) =
     [Connect, Execute (Update 1 inception_rerated),
      CacheSetex ''movie:1'' 3600 (json_dumps (PyDict (row_of 1 inception_rerated))),
      CacheDelete ''movies:all'', Commit, Rollback, Close]"
    and 5: "calls_inside_transaction
      (new_events (w_cached\<lparr>fault := CommitFails\<rparr>)
         (snd (update_movie 1 inception_rerated (w_cached\<lparr>fault := CommitFails\<rparr>))))"
    and 6: "fst (update_movie 1 inception_rerated (w_cached\<lparr>fault := CommitFails\<rparr>)) =
      Inl StoreFailure"
    and 7: "rows (snd (update_movie 1 inception_rerated (w_cached\<lparr>fault := CommitFails\<rparr>))) =
     [inception_row]"
    and 8: "cache (snd (update_movie 1 inception_rerated (w_cached\<lparr>fault := CommitFails\<rparr>))) =
     [''movie:1'' \<mapsto> (3600, json_dumps (PyDict (row_of 1 inception_rerated)))]"
    using d
    by (simp_all add: w_cached_simps mutation_events_def completed_calls_def committed_def
        mutation_error_def update_calls_def get_cache_key_1 CACHE_TTL_def
        get_all_movies_cache_key_def md_id_inception_row fun_upd_idem del: json_dumps.simps)
  have 9: "new_events (w_cached\<lparr>fault := CacheFails 0\<rparr>)
      (snd (delete_movie 1 (w_cached\<lparr>fault := CacheFails 0\<rparr>))) =
     [Connect, Execute (DeleteById 1), CacheDelete ''movie:1'', Rollback, Close]"
    and 10: "fst (delete_movie 1 (w_cached\<lparr>fault := CacheFails 0\<rparr>)) = Inl CacheFailure"
    and 11: "cache (snd (delete_movie 1 (w_cached\<lparr>fault := CacheFails 0\<rparr>))) = cache w_cached"
    using e
    by (simp_all add: w_cached_simps mutation_events_def completed_calls_def committed_def
        mutation_error_def delete_calls_def get_cache_key_1 get_all_movies_cache_key_def
        md_id_inception_row del: json_dumps.simps)
  have 12: "new_events (w_cached\<lparr>fault := CacheFails 1\<rparr>)
      (snd (create_movie inception_rerated (w_cached\<lparr>fault := CacheFails 1\<rparr>))) =
     [Connect, Execute (Insert inception_rerated),
      CacheSetex ''movie:2'' 3600 (json_dumps (PyDict (row_of 2 inception_rerated))),
      CacheDelete ''movies:all'', Rollback, Close]"
    and 13: "rows (snd (create_movie inception_rerated (w_cached\<lparr>fault := CacheFails 1\<rparr>))) =
     [inception_row]"
    using f
    by (simp_all add: w_cached_simps mutation_events_def completed_calls_def committed_def
        mutation_error_def create_calls_def get_cache_key_2 CACHE_TTL_def
        get_all_movies_cache_key_def del: json_dumps.simps)
  have 14: "new_events (w0\<lparr>fault := CommitFails\<rparr>)
      (snd (update_movie 1 inception_rerated (w0\<lparr>fault := CommitFails\<rparr>))) =
     [Connect, Execute (Update 1 inception_rerated), Rollback, Close]"
    and 15: "fst (update_movie 1 inception_rerated (w0\<lparr>fault := CommitFails\<rparr>)) = Inl NotFound"
    using g
    by (simp_all add: w0_def mutation_events_def completed_calls_def committed_def
        mutation_error_def update_calls_def del: json_dumps.simps)
  from 1 2 3 4 5 6 7 8 9 10 11 12 13 14 15 show ?thesis by blast
qed

text \<open>
  The claim as the specification states it fails: the cache is written before the commit.
  When the commit of a create fails, the insert is rolled back and the error propagates,
  but the per-id entry written before the commit stays in the cache.
\<close>

theorem commit_failure_counterexample:
  "create_movie inception (w0\<lparr>fault := CommitFails\<rparr>) =
     (Inl StoreFailure,
      w0\<lparr>next_id := 2,
         cache := [''movie:1'' \<mapsto> (3600, json_dumps (PyDict inception_row))],
         trace := [Connect, Execute (Insert inception),
                   CacheSetex ''movie:1'' 3600 (json_dumps (PyDict inception_row)),
                   CacheDelete ''movies:all'', Commit, Rollback, Close]\<rparr>)"
  by (simp add: create_movie_def io_defs redis_setex_ok redis_delete_ok fetchone_def w0_def
      get_cache_key_1 CACHE_TTL_def get_all_movies_cache_key_def inception_row_def row_of_def
      fun_upd_idem)

section \<open>Update and delete\<close>

text \<open>
  Claim C7. When nothing fails and no row of the store has the id, \<open>update_movie\<close> and
  \<open>delete_movie\<close> raise \<open>NotFound\<close>, make no cache call and leave the cache as it was.
  When a row has the id, \<open>update_movie\<close> overwrites the per-id entry with the new row
  and \<open>CACHE_TTL\<close>, and \<open>delete_movie\<close> removes the per-id entry; both delete the
  collection key.
\<close>

theorem update_delete_cases:
  assumes "fault w = NoFault"
  shows "(find (\<lambda>r. md_id r = i) (rows w) = None \<longrightarrow>
            update_movie i m w =
              (Inl NotFound, w\<lparr>trace := trace w @ [Connect, Execute (Update i m), Rollback, Close]\<rparr>)
          \<and> delete_movie i w =
              (Inl NotFound, w\<lparr>trace := trace w @ [Connect, Execute (DeleteById i), Rollback, Close]\<rparr>))
       \<and> (find (\<lambda>r. md_id r = i) (rows w) = Some r \<longrightarrow>
            update_movie i m w =
              (Inr (PyDict (row_of i m)),
               w\<lparr>rows := map (\<lambda>r. if md_id r = i then row_of i m else r) (rows w),
                 cache := (cache w)(get_cache_key i \<mapsto> (CACHE_TTL, json_dumps (PyDict (row_of i m))),
                                    get_all_movies_cache_key := None),
                 trace := trace w @ [Connect, Execute (Update i m),
                                     CacheSetex (get_cache_key i) CACHE_TTL
                                       (json_dumps (PyDict (row_of i m))),
                                     CacheDelete get_all_movies_cache_key, Commit, Close]\<rparr>)
          \<and> delete_movie i w =
              (Inr ''Movie deleted successfully'',
               w\<lparr>rows := filter (\<lambda>r. md_id r \<noteq> i) (rows w),
                 cache := (cache w)(get_cache_key i := None, get_all_movies_cache_key := None),
                 trace := trace w @ [Connect, Execute (DeleteById i), CacheDelete (get_cache_key i),
                                     CacheDelete get_all_movies_cache_key, Commit, Close]\<rparr>))"
  using assms
  by (simp add: update_movie_not_found delete_movie_not_found update_movie_found delete_movie_found)

theorem update_delete_cases_witness:
  "update_movie 1 inception_rerated w0 =
     (Inl NotFound, w0\<lparr>trace := [Connect, Execute (Update 1 inception_rerated), Rollback, Close]\<rparr>)
 \<and> delete_movie 1 w0 =
     (Inl NotFound, w0\<lparr>trace := [Connect, Execute (DeleteById 1), Rollback, Close]\<rparr>)
 \<and> update_movie 1 inception_rerated w_cached =
     (Inr (PyDict (row_of 1 inception_rerated)),
      w_cached\<lparr>rows := [row_of 1 inception_rerated],
                cache := [''movie:1'' \<mapsto> (3600, json_dumps (PyDict (row_of 1 inception_rerated)))],
                trace := [Connect, Execute (Update 1 inception_rerated),
                          CacheSetex ''movie:1'' 3600 (json_dumps (PyDict (row_of 1 inception_rerated))),
                          CacheDelete ''movies:all'', Commit, Close]\<rparr>)
 \<and> delete_movie 1 w_cached =
     (Inr ''Movie deleted successfully'',
      w_cached\<lparr>rows := [], cache := Map.empty,
                trace := [Connect, Execute (DeleteById 1), CacheDelete ''movie:1'',
                          CacheDelete ''movies:all'', Commit, Close]\<rparr>)"
  using update_delete_cases [where w = w0 and i = 1 and m = inception_rerated]
        update_delete_cases [where w = w_cached and i = 1 and m = inception_rerated
                               and r = inception_row]
  by (simp add: w0_def w_stored_def w_cached_def get_cache_key_1 CACHE_TTL_def
      get_all_movies_cache_key_def inception_row_def row_of_def fun_upd_idem)

section \<open>Listings\<close>

text \<open>
  Claim C8. After a create, an update or a delete that returned normally, the collection
  key is absent, so the next unfiltered \<open>get_movies\<close> (with nothing failing) misses the
  cache, queries the store for all rows and writes the collection key with \<open>CACHE_TTL\<close>.
  And each of them does return normally when nothing fails (and, for update and delete, a
  row has the id), whatever the collection key held before.
\<close>

theorem mutation_then_list_all:
  "(create_movie m w = (Inr v, w1) \<or> update_movie i m w = (Inr v, w1)
      \<or> delete_movie i w = (Inr s, w1) \<longrightarrow>
      cache w1 get_all_movies_cache_key = None \<and> list_all_refills w1)
 \<and> (fault w = NoFault \<longrightarrow>
      fst (create_movie m w) = Inr (PyDict (row_of (next_id w) m))
    \<and> cache (snd (create_movie m w)) get_all_movies_cache_key = None
    \<and> list_all_refills (snd (create_movie m w)))
 \<and> (fault w = NoFault \<and> find (\<lambda>r. md_id r = i) (rows w) = Some r \<longrightarrow>
      fst (update_movie i m w) = Inr (PyDict (row_of i m))
    \<and> cache (snd (update_movie i m w)) get_all_movies_cache_key = None
    \<and> list_all_refills (snd (update_movie i m w))
    \<and> fst (delete_movie i w) = Inr ''Movie deleted successfully''
    \<and> cache (snd (delete_movie i w)) get_all_movies_cache_key = None
    \<and> list_all_refills (snd (delete_movie i w)))"
proof (intro conjI impI)
  assume a: "create_movie m w = (Inr v, w1) \<or> update_movie i m w = (Inr v, w1)
      \<or> delete_movie i w = (Inr s, w1)"
  then show k: "cache w1 get_all_movies_cache_key = None"
    by (auto dest: create_success_invalidates update_success_invalidates delete_success_invalidates)
  then show "list_all_refills w1" by (rule absent_list_all_refills)
next
  assume nf: "fault w = NoFault"
  then show "fst (create_movie m w) = Inr (PyDict (row_of (next_id w) m))"
    by (simp add: create_movie_ok)
  from nf show k: "cache (snd (create_movie m w)) get_all_movies_cache_key = None"
    by (simp add: create_movie_ok)
  then show "list_all_refills (snd (create_movie m w))" by (rule absent_list_all_refills)
next
  assume a: "fault w = NoFault \<and> find (\<lambda>r. md_id r = i) (rows w) = Some r"
  then show "fst (update_movie i m w) = Inr (PyDict (row_of i m))"
    by (simp add: update_movie_found)
  from a show k: "cache (snd (update_movie i m w)) get_all_movies_cache_key = None"
    by (simp add: update_movie_found)
  then show "list_all_refills (snd (update_movie i m w))" by (rule absent_list_all_refills)
  from a show "fst (delete_movie i w) = Inr ''Movie deleted successfully''"
    by (simp add: delete_movie_found)
  from a show k': "cache (snd (delete_movie i w)) get_all_movies_cache_key = None"
    by (simp add: delete_movie_found)
  then show "list_all_refills (snd (delete_movie i w))" by (rule absent_list_all_refills)
qed

theorem mutation_then_list_all_witness:
  "cache w_listed ''movies:all'' = Some (3600, json_dumps (PyList [inception_row]))
 \<and> fst (create_movie inception_rerated w_listed) = Inr (PyDict (row_of 2 inception_rerated))
 \<and> cache (snd (create_movie inception_rerated w_listed)) ''movies:all'' = None
 \<and> fst (get_movies None (snd (create_movie inception_rerated w_listed))) =
      Inr (PyList [inception_row, row_of 2 inception_rerated])
 \<and> new_events (snd (create_movie inception_rerated w_listed))
      (snd (get_movies None (snd (create_movie inception_rerated w_listed)))) =
      [CacheGet ''movies:all'', Connect, Execute SelectAll,
       CacheSetex ''movies:all'' 3600
         (json_dumps (PyList [inception_row, row_of 2 inception_rerated])),
       Commit, Close]
 \<and> fst (update_movie 1 inception_rerated w_listed) = Inr (PyDict (row_of 1 inception_rerated))
 \<and> cache (snd (update_movie 1 inception_rerated w_listed)) ''movies:all'' = None
 \<and> fst (get_movies None (snd (update_movie 1 inception_rerated w_listed))) =
      Inr (PyList [row_of 1 inception_rerated])
 \<and> new_events (snd (update_movie 1 inception_rerated w_listed))
      (snd (get_movies None (snd (update_movie 1 inception_rerated w_listed)))) =
      [CacheGet ''movies:all'', Connect, Execute SelectAll,
       CacheSetex ''movies:all'' 3600 (json_dumps (PyList [row_of 1 inception_rerated])),
       Commit, Close]
 \<and> fst (delete_movie 1 w_listed) = Inr ''Movie deleted successfully''
 \<and> cache (snd (delete_movie 1 w_listed)) ''movies:all'' = None
 \<and> fst (get_movies None (snd (delete_movie 1 w_listed))) = Inr (PyList [])
 \<and> new_events (snd (delete_movie 1 w_listed))
      (snd (get_movies None (snd (delete_movie 1 w_listed)))) =
      [CacheGet ''movies:all'', Connect, Execute SelectAll,
       CacheSetex ''movies:all'' 3600 (json_dumps (PyList [])), Commit, Close]"
proof -
  have f: "find (\<lambda>r. md_id r = 1) (rows w_listed) = Some inception_row"
    by (simp add: w_listed_simps md_id_inception_row)
  have fc: "fault (snd (create_movie inception_rerated w_listed)) = NoFault"
    and rc: "rows (snd (create_movie inception_rerated w_listed)) =
             [inception_row, row_of 2 inception_rerated]"
    and fu: "fault (snd (update_movie 1 inception_rerated w_listed)) = NoFault"
    and ru: "rows (snd (update_movie 1 inception_rerated w_listed)) = [row_of 1 inception_rerated]"
    and fd: "fault (snd (delete_movie 1 w_listed)) = NoFault"
    and rd: "rows (snd (delete_movie 1 w_listed)) = []"
    using f
    by (simp_all add: create_movie_ok update_movie_found [where r = inception_row]
        delete_movie_found [where r = inception_row] w_listed_simps inception_row_def row_of_def)
  have idem: "\<And>w1. fault w1 = NoFault \<Longrightarrow> w1\<lparr>fault := NoFault\<rparr> = w1" by simp
  note t1 = mutation_then_list_all [where w = w_listed and m = inception_rerated and i = 1
      and r = inception_row]
  from t1 f have
    c: "fst (create_movie inception_rerated w_listed) = Inr (PyDict (row_of 2 inception_rerated))"
       "cache (snd (create_movie inception_rerated w_listed)) get_all_movies_cache_key = None"
       "list_all_refills (snd (create_movie inception_rerated w_listed))"
    and u: "fst (update_movie 1 inception_rerated w_listed) = Inr (PyDict (row_of 1 inception_rerated))"
       "cache (snd (update_movie 1 inception_rerated w_listed)) get_all_movies_cache_key = None"
       "list_all_refills (snd (update_movie 1 inception_rerated w_listed))"
    and d: "fst (delete_movie 1 w_listed) = Inr ''Movie deleted successfully''"
       "cache (snd (delete_movie 1 w_listed)) get_all_movies_cache_key = None"
       "list_all_refills (snd (delete_movie 1 w_listed))"
    by (simp_all add: w_listed_simps)
  have g: "fst (get_movies None w1) = Inr (PyList (rows w1)) \<and>
      new_events w1 (snd (get_movies None w1)) =
        [CacheGet ''movies:all'', Connect, Execute SelectAll,
         CacheSetex ''movies:all'' 3600 (json_dumps (PyList (rows w1))), Commit, Close]"
    if r: "list_all_refills w1" and nf: "fault w1 = NoFault" for w1
  proof -
    from r have "get_movies None w1 =
       (Inr (PyList (rows w1)),
        w1\<lparr>fault := NoFault,
           cache := (cache w1)(get_all_movies_cache_key \<mapsto>
                                 (CACHE_TTL, json_dumps (PyList (rows w1)))),
           trace := trace w1 @ [CacheGet get_all_movies_cache_key, Connect, Execute SelectAll,
                                CacheSetex get_all_movies_cache_key CACHE_TTL
                                  (json_dumps (PyList (rows w1))),
                                Commit, Close]\<rparr>)"
      unfolding list_all_refills_def idem [OF nf] .
    then show ?thesis
      by (simp add: new_events_def get_all_movies_cache_key_def CACHE_TTL_def
          del: json_dumps.simps)
  qed
  from g [OF c(3) fc] g [OF u(3) fu] g [OF d(3) fd] c(1,2) u(1,2) d(1,2) show ?thesis
    by (simp add: rc ru rd w_listed_simps get_all_movies_cache_key_def del: json_dumps.simps)
qed

text \<open>
  Claim C9, as amended. For every genre that is not the empty string, and in every state,
  \<open>get_movies\<close> leaves the cache as it was and makes no cache call, whatever fails; when
  nothing fails it issues the query by genre, and since only the trace changes, so does
  the next call. (The test \<^verbatim>\<open>if genre:\<close> sends the empty string down the unfiltered,
  cached path.)
\<close>

theorem genre_listing_bypasses_cache:
  assumes "g \<noteq> ''''"
  shows "cache (snd (get_movies (Some g) w)) = cache w
       \<and> filter is_cache_event (trace (snd (get_movies (Some g) w))) =
           filter is_cache_event (trace w)
       \<and> (fault w = NoFault \<longrightarrow>
            get_movies (Some g) w =
              (Inr (PyList (filter (\<lambda>r. md_genre r = g) (rows w))),
               w\<lparr>trace := trace w @ [Connect, Execute (SelectByGenre g), Commit, Close]\<rparr>))"
  using assms get_movies_genre_frame [of g w] by (simp add: get_movies_genre)

theorem genre_listing_bypasses_cache_witness:
  "cache (snd (get_movies (Some ''Sci-Fi'') w_cached)) = cache w_cached
 \<and> filter is_cache_event (trace (snd (get_movies (Some ''Sci-Fi'') w_cached))) = []
 \<and> get_movies (Some ''Sci-Fi'') w_cached =
      (Inr (PyList [inception_row]),
       w_cached\<lparr>trace := [Connect, Execute (SelectByGenre ''Sci-Fi''), Commit, Close]\<rparr>)"
  using genre_listing_bypasses_cache [of "''Sci-Fi''" w_cached]
  by (simp add: w0_def w_stored_def w_cached_def inception_row_def row_of_def inception_def)

text \<open>
  The claim for every genre argument fails at the empty string: the call reads the
  collection key, queries all rows and writes the collection key.
\<close>

theorem empty_genre_counterexample:
  "get_movies (Some '''') w0 =
     (Inr (PyList []),
      w0\<lparr>cache := [''movies:all'' \<mapsto> (3600, JArray [])],
         trace := [CacheGet ''movies:all'', Connect, Execute SelectAll,
                   CacheSetex ''movies:all'' 3600 (JArray []), Commit, Close]\<rparr>)"
  by (simp add: get_movies_all_miss w0_def CACHE_TTL_def get_all_movies_cache_key_def)

section \<open>Batch lookup\<close>

text \<open>
  Claim C4. When nothing fails and the ids of the table are unique (\<^verbatim>\<open>id\<close> is the primary
  key), \<open>get_movies_batch\<close> returns, for any list of ids, duplicates included, the cache
  hits in the order of the input followed by the rows the store returns for the ids that
  missed, in the store's order; every fetched row is afterwards in the cache under its per-id
  key with \<open>CACHE_TTL\<close>; ids found in neither place contribute nothing and raise no
  error, so the output is at most as long as the input and can be shorter.
\<close>

theorem get_movies_batch_order:
  assumes "fault w = NoFault" and "distinct (map md_id (rows w))"
  shows "fst (get_movies_batch ids w) = Inr (cached_movies w ids @ map PyDict (fetched w ids))
       \<and> (\<forall>r\<in>set (fetched w ids).
            cache (snd (get_movies_batch ids w)) (get_cache_key (md_id r)) =
              Some (CACHE_TTL, json_dumps (PyDict r)))
       \<and> length (cached_movies w ids @ map PyDict (fetched w ids)) \<le> length ids"
proof (intro conjI ballI)
  show "fst (get_movies_batch ids w) = Inr (cached_movies w ids @ map PyDict (fetched w ids))"
    using assms(1) by (rule get_movies_batch_result)
next
  fix r assume "r \<in> set (fetched w ids)"
  then show "cache (snd (get_movies_batch ids w)) (get_cache_key (md_id r)) =
              Some (CACHE_TTL, json_dumps (PyDict r))"
    using assms by (simp add: get_movies_batch_cache foldl_write_row_lookup distinct_fetched)
next
  show "length (cached_movies w ids @ map PyDict (fetched w ids)) \<le> length ids"
    using length_fetched_le [OF assms(2), of ids] length_cached_uncached [of w ids] by simp
qed

theorem get_movies_batch_order_witness:
  "fst (get_movies_batch [1, 2, 3] w_two) =
     Inr [json_loads (json_dumps (PyDict inception_row)), PyDict (row_of 2 inception_rerated)]
 \<and> cache (snd (get_movies_batch [1, 2, 3] w_two)) ''movie:2'' =
     Some (3600, json_dumps (PyDict (row_of 2 inception_rerated)))
 \<and> length [json_loads (json_dumps (PyDict inception_row)), PyDict (row_of 2 inception_rerated)]
     \<le> length [1, 2, 3 :: int]"
proof -
  have d: "distinct (map md_id (rows w_two))"
    by (simp add: w_two_simps inception_row_def row_of_def)
  from get_movies_batch_order [OF w_two_simps(1) d, of "[1, 2, 3]"] show ?thesis
    by (simp add: w_two_batch) (simp add: row_of_def get_cache_key_2 CACHE_TTL_def)
qed

text \<open>
  Claim C5. On the empty list \<open>get_movies_batch\<close> returns the empty list and makes no
  call at all, whatever the state. When nothing fails, the calls on the store are: none if
  every id hits the cache, and otherwise one connection with exactly one query, whose ids
  are the input ids that are not cached.
\<close>

theorem get_movies_batch_store_access:
  "get_movies_batch [] w = (Inr [], w)
 \<and> (fault w = NoFault \<longrightarrow>
      filter (\<lambda>e. \<not> is_cache_event e) (new_events w (snd (get_movies_batch ids w))) =
        (if uncached w ids = [] then []
         else [Connect, Execute (SelectByIds (uncached w ids)), Commit, Close])
    \<and> set (uncached w ids) = {i \<in> set ids. cache w (get_cache_key i) = None})"
  by (simp add: get_movies_batch_empty get_movies_batch_store_events) (simp add: uncached_def)

theorem get_movies_batch_store_access_witness:
  "get_movies_batch [] w_two = (Inr [], w_two)
 \<and> filter (\<lambda>e. \<not> is_cache_event e) (new_events w_two (snd (get_movies_batch [1, 2, 3] w_two))) =
     [Connect, Execute (SelectByIds [2, 3]), Commit, Close]
 \<and> filter (\<lambda>e. \<not> is_cache_event e) (new_events w_two (snd (get_movies_batch [1] w_two))) = []"
  using get_movies_batch_store_access [of w_two "[1, 2, 3]"]
        get_movies_batch_store_access [of w_two "[1]"]
  by (simp add: w_two_simps w_two_batch)

text \<open>
  Claim C10. When nothing fails, the ids of the table are unique and the cached documents
  carry the id of their key: an id that hits the cache occurs in the output as often as in
  the input, and an id that misses the cache occurs once if it is in the input and in the
  store, and not at all otherwise, however often it occurs in the input.
\<close>

theorem get_movies_batch_duplicates:
  assumes "fault w = NoFault" and "distinct (map md_id (rows w))" and "keyed_by_id w ids"
  shows "fst (get_movies_batch ids w) = Inr (cached_movies w ids @ map PyDict (fetched w ids))
       \<and> (cache w (get_cache_key j) \<noteq> None \<longrightarrow>
            length (filter (\<lambda>v. pyval_id v = Some j)
                      (cached_movies w ids @ map PyDict (fetched w ids))) = count_list ids j)
       \<and> (cache w (get_cache_key j) = None \<longrightarrow>
            length (filter (\<lambda>v. pyval_id v = Some j)
                      (cached_movies w ids @ map PyDict (fetched w ids))) =
              (if j \<in> set ids \<and> j \<in> md_id ` set (rows w) then 1 else 0))"
proof -
  have f: "length (filter (\<lambda>v. pyval_id v = Some j) (map PyDict (fetched w ids))) =
      (if j \<in> set ids \<and> cache w (get_cache_key j) = None \<and> j \<in> md_id ` set (rows w)
       then 1 else 0)"
    using count_distinct_id [OF distinct_fetched [OF assms(2)], of j ids]
    by (simp add: filter_id_map_PyDict fetched_ids)
  show ?thesis
    using get_movies_batch_result [OF assms(1), of ids] count_cached_movies [OF assms(3), of j] f
    by auto
qed

theorem get_movies_batch_duplicates_witness:
  "fst (get_movies_batch [1, 1, 2, 2, 5] w_two) =
     Inr [json_loads (json_dumps (PyDict inception_row)),
          json_loads (json_dumps (PyDict inception_row)),
          PyDict (row_of 2 inception_rerated)]
 \<and> length (filter (\<lambda>v. pyval_id v = Some 1)
      (cached_movies w_two [1, 1, 2, 2, 5] @ map PyDict (fetched w_two [1, 1, 2, 2, 5]))) = 2
 \<and> length (filter (\<lambda>v. pyval_id v = Some 2)
      (cached_movies w_two [1, 1, 2, 2, 5] @ map PyDict (fetched w_two [1, 1, 2, 2, 5]))) = 1"
proof -
  have k5: "get_cache_key 5 = ''movie:5''"
    by (simp add: get_cache_key_def str_int_def str_nat.simps digit_char_def)
  have d: "distinct (map md_id (rows w_two))"
    by (simp add: w_two_simps inception_row_def row_of_def)
  have k: "keyed_by_id w_two [1, 1, 2, 2, 5]"
    by (simp add: keyed_by_id_def w_two_simps get_cache_key_1 get_cache_key_2 k5
        inception_row_def row_of_def dumps_object_def loads_object_def)
  have c: "cached_movies w_two [1, 1, 2, 2, 5] =
      [json_loads (json_dumps (PyDict inception_row)), json_loads (json_dumps (PyDict inception_row))]"
    "fetched w_two [1, 1, 2, 2, 5] = [row_of 2 inception_rerated]"
    by (simp_all add: cached_movies_def uncached_def fetched_def w_two_simps get_cache_key_1
      get_cache_key_2 k5 inception_row_def row_of_def)
  have h1: "cache w_two (get_cache_key 1) \<noteq> None" and h2: "cache w_two (get_cache_key 2) = None"
    by (simp_all add: w_two_simps get_cache_key_1 get_cache_key_2)
  from get_movies_batch_duplicates [OF w_two_simps(1) d k, of 1]
       get_movies_batch_duplicates [OF w_two_simps(1) d k, of 2] h1 h2
  show ?thesis
    by (simp add: c) (simp add: w_two_simps inception_row_def row_of_def)
qed

section \<open>Lookup after create\<close>

text \<open>
  Claim C6. When nothing fails, a \<open>get_movie\<close> of the new id right after
  \<open>create_movie\<close> is answered from the cache: its only call is the cache read, and the
  \<^verbatim>\<open>Movie\<close> the caller receives has the same fields as the one create returned. The dict
  the handler returns differs from the one of create in one respect, which the response
  model removes: the rating, a \<^verbatim>\<open>Decimal\<close> from the store, comes back from the cache as
  the \<^verbatim>\<open>str\<close> of that Decimal. The cached document determines the stored fields: two
  requests that lead to the same document under the same id are equal.
\<close>

theorem get_after_create:
  assumes "fault w = NoFault" and "create_movie m w = (Inr v, w1)"
  shows "v = PyDict (row_of (next_id w) m)
       \<and> get_movie (next_id w) w1 =
           (Inr (json_loads (json_dumps v)),
            w1\<lparr>trace := trace w1 @ [CacheGet (get_cache_key (next_id w))]\<rparr>)
       \<and> response_model_Movie (json_loads (json_dumps v)) = response_model_Movie v
       \<and> response_model_Movie v \<noteq> None
       \<and> (\<forall>m'. json_dumps (PyDict (row_of (next_id w) m')) = json_dumps v \<longrightarrow> m' = m)"
proof -
  from assms have v: "v = PyDict (row_of (next_id w) m)"
    and w1: "w1 = w\<lparr>rows := rows w @ [row_of (next_id w) m], next_id := next_id w + 1,
        cache := (cache w)(get_cache_key (next_id w) \<mapsto>
                             (CACHE_TTL, json_dumps (PyDict (row_of (next_id w) m))),
                           get_all_movies_cache_key := None),
        trace := trace w @ [Connect, Execute (Insert m),
                            CacheSetex (get_cache_key (next_id w)) CACHE_TTL
                              (json_dumps (PyDict (row_of (next_id w) m))),
                            CacheDelete get_all_movies_cache_key, Commit, Close]\<rparr>"
    by (auto simp: create_movie_ok)
  have f: "fault w1 = NoFault" using assms(1) by (simp add: w1)
  have c: "cache w1 (get_cache_key (next_id w)) = Some (CACHE_TTL, json_dumps v)"
    by (simp add: w1 v)
  have g: "get_movie (next_id w) w1 =
           (Inr (json_loads (json_dumps v)),
            w1\<lparr>trace := trace w1 @ [CacheGet (get_cache_key (next_id w))]\<rparr>)"
    by (rule get_movie_hit [OF f c])
  have r: "response_model_Movie (json_loads (json_dumps v)) = response_model_Movie v"
    unfolding v by (rule response_round_trip)
  have n: "response_model_Movie v \<noteq> None" by (simp add: v)
  have i: "\<forall>m'. json_dumps (PyDict (row_of (next_id w) m')) = json_dumps v \<longrightarrow> m' = m"
    by (auto simp: v dest: dumps_row_of_inj)
  from v g r n i show ?thesis by blast
qed

theorem get_after_create_witness:
  "create_movie inception w0 =
     (Inr (PyDict inception_row),
      w_cached\<lparr>trace := [Connect, Execute (Insert inception),
                          CacheSetex ''movie:1'' 3600 (json_dumps (PyDict inception_row)),
                          CacheDelete ''movies:all'', Commit, Close]\<rparr>)
 \<and> get_movie 1
      (w_cached\<lparr>trace := [Connect, Execute (Insert inception),
                          CacheSetex ''movie:1'' 3600 (json_dumps (PyDict inception_row)),
                          CacheDelete ''movies:all'', Commit, Close]\<rparr>) =
     (Inr (PyDict (inception_row\<lparr>md_rating := RStr ''8.8''\<rparr>)),
      w_cached\<lparr>trace := [Connect, Execute (Insert inception),
                          CacheSetex ''movie:1'' 3600 (json_dumps (PyDict inception_row)),
                          CacheDelete ''movies:all'', Commit, Close, CacheGet ''movie:1'']\<rparr>)
 \<and> response_model_Movie (PyDict (inception_row\<lparr>md_rating := RStr ''8.8''\<rparr>)) =
     response_model_Movie (PyDict inception_row)"
proof -
  let ?w1 = "w_cached\<lparr>trace := [Connect, Execute (Insert inception),
                          CacheSetex ''movie:1'' 3600 (json_dumps (PyDict inception_row)),
                          CacheDelete ''movies:all'', Commit, Close]\<rparr>"
  have c: "create_movie inception w0 = (Inr (PyDict inception_row), ?w1)"
    by (simp add: create_movie_ok w0_def w_stored_def w_cached_def get_cache_key_1 CACHE_TTL_def
        get_all_movies_cache_key_def inception_row_def fun_upd_idem)
  have f: "fault w0 = NoFault" by (simp add: w0_def)
  have l: "json_loads (json_dumps (PyDict inception_row)) =
      PyDict (inception_row\<lparr>md_rating := RStr ''8.8''\<rparr>)"
    by (simp add: inception_row_def row_of_def inception_def dumps_object_def loads_object_def
        str_decimal_88)
  have n: "next_id w0 = 1" by (simp add: w0_def)
  from get_after_create [OF f c]
  have g: "get_movie (next_id w0) ?w1 =
      (Inr (json_loads (json_dumps (PyDict inception_row))),
       ?w1\<lparr>trace := trace ?w1 @ [CacheGet (get_cache_key (next_id w0))]\<rparr>)"
    and r: "response_model_Movie (json_loads (json_dumps (PyDict inception_row))) =
      response_model_Movie (PyDict inception_row)"
    by blast+
  have t: "?w1\<lparr>trace := trace ?w1 @ [CacheGet ''movie:1'']\<rparr> =
      w_cached\<lparr>trace := [Connect, Execute (Insert inception),
                          CacheSetex ''movie:1'' 3600 (json_dumps (PyDict inception_row)),
                          CacheDelete ''movies:all'', Commit, Close, CacheGet ''movie:1'']\<rparr>"
    by simp
  from g r c show ?thesis
    unfolding l n get_cache_key_1 t by blast
qed

section \<open>The cache against the store, over sequences of operations\<close>

text \<open>
  Claim C2, as amended. From a consistent state (the service starting with an empty cache
  is one), after any sequence of operations and expiries, whatever fails: the collection
  entry, if present, is the document of the full current record set; and the per-id entry
  of an id, if present, is the document of the current row of that id, unless the id is
  suspect: its entry was left by a create or an update of that id that failed after its
  per-id cache write (at the delete of the collection key, or at the commit), and has not
  since been rewritten by a committed update, deleted or expired. In particular every
  per-id entry is fresh after a sequence in which no create or update fails in that way.
\<close>

theorem cache_reflects_store:
  assumes "consistent w"
  shows "collection_fresh (rows (run ops w)) (cache (run ops w))
       \<and> (\<not> suspect False ops w i \<longrightarrow> entry_fresh (rows (run ops w)) (cache (run ops w)) i)
       \<and> (list_all (\<lambda>(p, f). \<not> harmful p f) ops \<longrightarrow>
            entry_fresh (rows (run ops w)) (cache (run ops w)) i)"
proof -
  from assms have "collection_ok w" by (simp add: consistent_def coherent_def collection_ok_def)
  then have "collection_ok (run ops w)" by (rule run_collection)
  then have c: "collection_fresh (rows (run ops w)) (cache (run ops w))"
    by (simp add: collection_ok_def)
  from assms have ok: "store_ok w" and e: "entry_fresh (rows w) (cache w) i"
    by (simp_all add: consistent_def coherent_def store_ok_def)
  have s: "entry_fresh (rows (run ops w)) (cache (run ops w)) i" if "\<not> suspect False ops w i"
    using run_suspect [OF ok _ that] e by simp
  have h: "entry_fresh (rows (run ops w)) (cache (run ops w)) i"
    if "list_all (\<lambda>(p, f). \<not> harmful p f) ops"
    using s harmless_not_suspect [OF that, of False w i] by simp
  from c s h show ?thesis by blast
qed

theorem cache_reflects_store_witness:
  "consistent w0
 \<and> list_all (\<lambda>(p, f). \<not> harmful p f) ops_example
 \<and> cache (run ops_example w0) ''movie:1'' = Some (3600, json_dumps (PyDict inception_row))
 \<and> cache (run ops_example w0) ''movies:all'' = Some (3600, json_dumps (PyList [inception_row]))
 \<and> entry_fresh (rows (run ops_example w0)) (cache (run ops_example w0)) 1
 \<and> collection_fresh (rows (run ops_example w0)) (cache (run ops_example w0))
 \<and> \<not> list_all (\<lambda>(p, f). \<not> harmful p f) ops_recovered
 \<and> \<not> suspect False ops_recovered w0 1
 \<and> \<not> suspect False ops_recovered w0 2
 \<and> rows (run ops_recovered w0) = [inception_row]
 \<and> cache (run ops_recovered w0) ''movie:1'' = Some (3600, json_dumps (PyDict inception_row))
 \<and> cache (run ops_recovered w0) ''movie:2'' = None
 \<and> entry_fresh (rows (run ops_recovered w0)) (cache (run ops_recovered w0)) 1
 \<and> entry_fresh (rows (run ops_recovered w0)) (cache (run ops_recovered w0)) 2
 \<and> collection_fresh (rows (run ops_recovered w0)) (cache (run ops_recovered w0))"
proof -
  have h: "list_all (\<lambda>(p, f). \<not> harmful p f) ops_example"
    by (simp add: ops_example_def)
  have n: "\<not> list_all (\<lambda>(p, f). \<not> harmful p f) ops_recovered"
    by (simp add: ops_recovered_def)
  from cache_reflects_store [OF consistent_w0, of ops_example 1] h
  have a: "entry_fresh (rows (run ops_example w0)) (cache (run ops_example w0)) 1"
    "collection_fresh (rows (run ops_example w0)) (cache (run ops_example w0))"
    by simp_all
  from cache_reflects_store [OF consistent_w0, of ops_recovered 1] suspect_ops_recovered(1)
  have b: "entry_fresh (rows (run ops_recovered w0)) (cache (run ops_recovered w0)) 1"
    "collection_fresh (rows (run ops_recovered w0)) (cache (run ops_recovered w0))"
    by simp_all
  from cache_reflects_store [OF consistent_w0, of ops_recovered 2] suspect_ops_recovered(2)
  have c: "entry_fresh (rows (run ops_recovered w0)) (cache (run ops_recovered w0)) 2"
    by simp
  have d: "cache (run ops_example w0) ''movie:1'' = Some (3600, json_dumps (PyDict inception_row))"
    "cache (run ops_example w0) ''movies:all'' = Some (3600, json_dumps (PyList [inception_row]))"
    "cache (run ops_recovered w0) ''movie:1'' = Some (3600, json_dumps (PyDict inception_row))"
    "cache (run ops_recovered w0) ''movie:2'' = None"
    by (simp_all add: run_ops_example(2) run_ops_recovered(2))
  from consistent_w0 h n a b c d suspect_ops_recovered run_ops_recovered(1)
  show ?thesis by blast
qed

text \<open>
  Without the restriction the per-id part fails: a create whose commit fails leaves a per-id
  entry for a row the store does not have, and the next lookup of that id returns it.
\<close>

theorem phantom_entry_counterexample:
  "rows (run [(OpCreate inception, CommitFails)] w0) = []
 \<and> cache (run [(OpCreate inception, CommitFails)] w0) ''movie:1'' =
     Some (3600, json_dumps (PyDict inception_row))
 \<and> \<not> entry_fresh (rows (run [(OpCreate inception, CommitFails)] w0))
       (cache (run [(OpCreate inception, CommitFails)] w0)) 1
 \<and> fst (get_movie 1 (run [(OpCreate inception, CommitFails)] w0)) =
     Inr (json_loads (json_dumps (PyDict inception_row)))"
  unfolding run_create_commit_fails
  by (simp add: entry_fresh_def w0_def get_cache_key_1 get_movie_hit [where ttl = 3600
        and d = "json_dumps (PyDict inception_row)"] del: json_dumps.simps)

end
